(* ===== verification/Fai_Prelude.thy ===== *)
theory Fai_Prelude
  imports Main "HOL-Library.AList" "HOL-Library.Multiset"
begin

text \<open>
  Shared vocabulary of the development: the exception type and the result type of
  fallible operations with their sequencing operator, ordered dictionaries as
  association lists (Python's \<^verbatim>\<open>dict\<close> keeps insertion order and assignment to an
  existing key keeps the key's position, which is what \<open>AList.update\<close> does), and
  the generic list facts the component theories use.  Nothing here is specific to one
  component of \<^verbatim>\<open>src/fai.py\<close>.
\<close>

section \<open>Collections of facts\<close>

named_theorems py_defs \<open>unfolding equations of the modelled Python primitives\<close>
named_theorems dict_simps \<open>facts about ordered dictionaries as association lists\<close>
named_theorems sched_defs \<open>unfolding equations of the scheduler's state predicates\<close>

section \<open>Exceptions and results\<close>

text \<open>
  The exception classes the program can meet.  The first six are raised by the
  interpreter while it evaluates the source's own expressions; \<open>Raised m\<close> is an
  exception raised inside a collaborator (the inference client, \<^verbatim>\<open>json.loads\<close>,
  the imaging library, the file system), identified by its message \<open>m\<close>.
\<close>

datatype exn =
    TypeError | AttributeError | IndexError | KeyError | ValueError | OverflowError
  | Raised string

type_synonym 'a result = "exn + 'a"

definition bind_exn :: "'a result \<Rightarrow> ('a \<Rightarrow> 'b result) \<Rightarrow> 'b result" where
  "bind_exn m f = (case m of Inl e \<Rightarrow> Inl e | Inr x \<Rightarrow> f x)"

definition raises :: "'a result \<Rightarrow> bool" where
  "raises m = (case m of Inl e \<Rightarrow> True | Inr x \<Rightarrow> False)"

lemma bind_exn_Inl [simp]: "bind_exn (Inl e) f = Inl e"
  by (simp add: bind_exn_def)

lemma bind_exn_Inr [simp]: "bind_exn (Inr x) f = f x"
  by (simp add: bind_exn_def)

lemma bind_exn_eq_Inr: "bind_exn m f = Inr y \<longleftrightarrow> (\<exists>x. m = Inr x \<and> f x = Inr y)"
  by (cases m) auto

lemma bind_exn_eq_Inl:
  "bind_exn m f = Inl e \<longleftrightarrow> m = Inl e \<or> (\<exists>x. m = Inr x \<and> f x = Inl e)"
  by (cases m) auto

lemma bind_exn_assoc: "bind_exn (bind_exn m f) g = bind_exn m (\<lambda>x. bind_exn (f x) g)"
  by (cases m) auto

lemma raises_simps [simp]: "raises (Inl e)" "\<not> raises (Inr x)"
  by (simp_all add: raises_def)

lemma raises_bind: "raises (bind_exn m f) \<longleftrightarrow> raises m \<or> (\<exists>x. m = Inr x \<and> raises (f x))"
  by (cases m) auto

lemma not_raises_iff: "\<not> raises m \<longleftrightarrow> (\<exists>x. m = Inr x)"
  by (cases m) auto

section \<open>Ordered dictionaries\<close>

type_synonym 'v dict = "(string \<times> 'v) list"

abbreviation keys :: "'v dict \<Rightarrow> string list" where
  "keys d \<equiv> map fst d"

lemma keys_update_present [dict_simps]:
  "k \<in> set (keys d) \<Longrightarrow> keys (AList.update k v d) = keys d"
  by (induction d) auto

lemma keys_update_absent [dict_simps]:
  "k \<notin> set (keys d) \<Longrightarrow> AList.update k v d = d @ [(k, v)]"
  by (induction d) auto

lemma length_update_present [dict_simps]:
  "k \<in> set (keys d) \<Longrightarrow> length (AList.update k v d) = length d"
  by (induction d) auto

lemma length_update_absent [dict_simps]:
  "k \<notin> set (keys d) \<Longrightarrow> length (AList.update k v d) = Suc (length d)"
  by (simp add: keys_update_absent)

lemma map_of_update [dict_simps]:
  "map_of (AList.update k v d) k' = (if k' = k then Some v else map_of d k')"
  by (simp add: update_conv')

lemma distinct_keys_update [dict_simps]:
  "distinct (keys d) \<Longrightarrow> distinct (keys (AList.update k v d))"
  by (rule distinct_update)

lemma set_keys_update [dict_simps]:
  "set (keys (AList.update k v d)) = insert k (set (keys d))"
  using dom_update [of k v d] by simp

lemma map_of_eq_None_keys [dict_simps]: "map_of d k = None \<longleftrightarrow> k \<notin> set (keys d)"
  by (simp add: map_of_eq_None_iff)

lemma keys_map_value [simp, dict_simps]: "keys (map (\<lambda>(k, v). (k, f k v)) d) = keys d"
  by (induction d) auto

lemma keys_map_value_comp [simp, dict_simps]:
  "map (fst \<circ> (\<lambda>(k, v). (k, f k v))) d = keys d"
  by (induction d) auto

lemma map_of_map_value [dict_simps]:
  "map_of (map (\<lambda>(k, v). (k, f k v)) d) k = map_option (f k) (map_of d k)"
  by (induction d) auto

lemma set_update_subset [dict_simps]: "set (AList.update k v d) \<subseteq> insert (k, v) (set d)"
  by (induction d) auto

lemma map_value_absent:
  "k \<notin> set (keys d) \<Longrightarrow> map (\<lambda>(k', v'). (k', if k' = k then v else v')) d = d"
  by (induction d) auto

lemma update_map_value:
  "distinct (keys d) \<Longrightarrow> k \<in> set (keys d) \<Longrightarrow>
   AList.update k v d = map (\<lambda>(k', v'). (k', if k' = k then v else v')) d"
  by (induction d) (auto simp: map_value_absent)

section \<open>Lists\<close>

lemma foldl_preserves:
  assumes "P a" and "\<And>a x. P a \<Longrightarrow> x \<in> set xs \<Longrightarrow> P (f a x)"
  shows "P (foldl f a xs)"
  using assms by (induction xs arbitrary: a) auto

lemma length_remove1_mem: "x \<in> set xs \<Longrightarrow> Suc (length (remove1 x xs)) = length xs"
  by (induction xs) auto

lemma mset_split_remove: "mset (xs @ x # ys) = add_mset x (mset (xs @ ys))"
  by simp

end
