(* ===== verification/Py_Values.thy ===== *)
theory Py_Values
  imports Fai_Prelude
begin

text \<open>
  The values that \<^verbatim>\<open>json.loads\<close> hands to the program (\<^verbatim>\<open>src/fai.py\<close> line 68) and
  the Python operations the program applies to them: truth testing, \<^verbatim>\<open>len\<close>,
  \<^verbatim>\<open>in\<close>, subscription and item assignment, \<^verbatim>\<open>dict.get\<close>, \<^verbatim>\<open>str.replace\<close>,
  \<^verbatim>\<open>str.strip\<close>, \<^verbatim>\<open>str.lower\<close>, \<^verbatim>\<open>str.endswith\<close> and \<^verbatim>\<open>int\<close>.  Each operation
  is total here and returns \<open>Inl\<close> of the exception class where Python raises.

  A string is a list of code points below 256 (Isabelle's \<open>char\<close>).  A float is
  \<open>Finite m e\<close> for the binary fraction \<open>m * 2 ^ e\<close>, or one of the three special
  values; the program only tests floats for truth and truncates them with \<^verbatim>\<open>int\<close>.
  A dictionary is an association list in insertion order whose keys are strings, as
  every dictionary decoded from JSON is.
\<close>

section \<open>Values\<close>

datatype pyfloat = Finite int int | PosInf | NegInf | NaN

datatype py =
    PNone | PBool bool | PInt int | PFloat pyfloat | PStr string
  | PList "py list" | PDict "(string \<times> py) list"

text \<open>Dictionaries have distinct keys, hereditarily.\<close>

primrec wf_py :: "py \<Rightarrow> bool" where
  "wf_py PNone = True"
| "wf_py (PBool b) = True"
| "wf_py (PInt i) = True"
| "wf_py (PFloat f) = True"
| "wf_py (PStr s) = True"
| "wf_py (PList xs) = list_all wf_py xs"
| "wf_py (PDict d) = (distinct (keys d) \<and> list_all (pred_prod (\<lambda>k. True) wf_py) d)"

definition is_dict :: "py \<Rightarrow> bool" where
  "is_dict v = (case v of PDict d \<Rightarrow> True | _ \<Rightarrow> False)"

section \<open>Truth value and length\<close>

fun py_truthy :: "py \<Rightarrow> bool" where
  "py_truthy PNone = False"
| "py_truthy (PBool b) = b"
| "py_truthy (PInt i) = (i \<noteq> 0)"
| "py_truthy (PFloat (Finite m e)) = (m \<noteq> 0)"
| "py_truthy (PFloat f) = True"
| "py_truthy (PStr s) = (s \<noteq> [])"
| "py_truthy (PList xs) = (xs \<noteq> [])"
| "py_truthy (PDict d) = (d \<noteq> [])"

fun py_len :: "py \<Rightarrow> nat result" where
  "py_len (PStr s) = Inr (length s)"
| "py_len (PList xs) = Inr (length xs)"
| "py_len (PDict d) = Inr (length d)"
| "py_len v = Inl TypeError"

section \<open>Subscription\<close>

text \<open>
  An object usable as a sequence index: an \<^verbatim>\<open>int\<close>, or a \<^verbatim>\<open>bool\<close>, which is an
  \<^verbatim>\<open>int\<close> in Python.  A negative index counts from the end.
\<close>

fun as_index :: "py \<Rightarrow> int option" where
  "as_index (PInt i) = Some i"
| "as_index (PBool b) = Some (if b then 1 else 0)"
| "as_index v = None"

definition py_index :: "nat \<Rightarrow> int \<Rightarrow> nat result" where
  "py_index n i =
     (let j = (if i < 0 then i + int n else i)
      in if 0 \<le> j \<and> j < int n then Inr (nat j) else Inl IndexError)"

definition list_getitem :: "py list \<Rightarrow> py \<Rightarrow> py result" where
  "list_getitem xs k =
     (case as_index k of
        None \<Rightarrow> Inl TypeError
      | Some i \<Rightarrow> bind_exn (py_index (length xs) i) (\<lambda>j. Inr (xs ! j)))"

definition list_setitem :: "py list \<Rightarrow> py \<Rightarrow> py \<Rightarrow> py list result" where
  "list_setitem xs k v =
     (case as_index k of
        None \<Rightarrow> Inl TypeError
      | Some i \<Rightarrow> bind_exn (py_index (length xs) i) (\<lambda>j. Inr (xs[j := v])))"

text \<open>\<^verbatim>\<open>obj[key]\<close>, \<^verbatim>\<open>obj[key] = v\<close>, \<^verbatim>\<open>key in obj\<close> and \<^verbatim>\<open>obj.get(key)\<close> for a string key.\<close>

fun py_getitem_str :: "py \<Rightarrow> string \<Rightarrow> py result" where
  "py_getitem_str (PDict d) k = (case map_of d k of Some v \<Rightarrow> Inr v | None \<Rightarrow> Inl KeyError)"
| "py_getitem_str v k = Inl TypeError"

fun py_setitem_str :: "py \<Rightarrow> string \<Rightarrow> py \<Rightarrow> py result" where
  "py_setitem_str (PDict d) k v = Inr (PDict (AList.update k v d))"
| "py_setitem_str u k v = Inl TypeError"

fun is_substring :: "string \<Rightarrow> string \<Rightarrow> bool" where
  "is_substring xs [] = (xs = [])"
| "is_substring xs (y # ys) = (take (length xs) (y # ys) = xs \<or> is_substring xs ys)"

fun py_contains_str :: "py \<Rightarrow> string \<Rightarrow> bool result" where
  "py_contains_str (PDict d) k = Inr (k \<in> set (keys d))"
| "py_contains_str (PList xs) k = Inr (PStr k \<in> set xs)"
| "py_contains_str (PStr s) k = Inr (is_substring k s)"
| "py_contains_str v k = Inl TypeError"

fun py_get :: "py \<Rightarrow> string \<Rightarrow> py result" where
  "py_get (PDict d) k = Inr (case map_of d k of Some v \<Rightarrow> v | None \<Rightarrow> PNone)"
| "py_get v k = Inl AttributeError"

section \<open>Strings\<close>

text \<open>The white space of \<^verbatim>\<open>str.strip()\<close> and \<^verbatim>\<open>int()\<close> among the code points below 256.\<close>

definition is_space :: "char \<Rightarrow> bool" where
  "is_space c \<longleftrightarrow> c \<in> set [CHR 0x09, CHR 0x0A, CHR 0x0B, CHR 0x0C, CHR 0x0D,
     CHR 0x1C, CHR 0x1D, CHR 0x1E, CHR 0x1F, CHR 0x20, CHR 0x85, CHR 0xA0]"

definition strip :: "string \<Rightarrow> string" where
  "strip s = rev (dropWhile is_space (rev (dropWhile is_space s)))"

definition replace_char :: "char \<Rightarrow> string \<Rightarrow> string" where
  "replace_char c s = filter (\<lambda>x. x \<noteq> c) s"

text \<open>\<^verbatim>\<open>str.lower()\<close> on code points below 256: A-Z, and the Latin-1 capitals but the
  multiplication sign.\<close>

definition lower_char :: "char \<Rightarrow> char" where
  "lower_char c =
     (let n = of_char c :: nat
      in if (65 \<le> n \<and> n \<le> 90) \<or> (192 \<le> n \<and> n \<le> 222 \<and> n \<noteq> 215)
         then char_of (n + 32) else c)"

definition lower :: "string \<Rightarrow> string" where
  "lower s = map lower_char s"

definition endswith :: "string \<Rightarrow> string \<Rightarrow> bool" where
  "endswith s suf \<longleftrightarrow> length suf \<le> length s \<and> drop (length s - length suf) s = suf"

section \<open>Conversion to int\<close>

definition is_digit :: "char \<Rightarrow> bool" where
  "is_digit c \<longleftrightarrow> (48::nat) \<le> of_char c \<and> of_char c \<le> (57::nat)"

definition digit_val :: "char \<Rightarrow> int" where
  "digit_val c = int (of_char c) - 48"

text \<open>Decimal digits, where a single underscore may stand between two digits.\<close>

fun int_digits :: "int \<Rightarrow> string \<Rightarrow> int option" where
  "int_digits a [] = Some a"
| "int_digits a [c] = (if is_digit c then Some (10 * a + digit_val c) else None)"
| "int_digits a (c # d # ds) =
     (if c = CHR ''_'' then
        (if is_digit d then int_digits (10 * a + digit_val d) ds else None)
      else if is_digit c then int_digits (10 * a + digit_val c) (d # ds)
      else None)"

definition int_magnitude :: "string \<Rightarrow> int option" where
  "int_magnitude s =
     (case s of [] \<Rightarrow> None
      | c # cs \<Rightarrow> if is_digit c then int_digits (digit_val c) cs else None)"

definition int_of_str :: "string \<Rightarrow> int result" where
  "int_of_str s =
     (let t = strip s;
          r = (case t of
                 [] \<Rightarrow> None
               | c # cs \<Rightarrow> if c = CHR ''-'' then map_option uminus (int_magnitude cs)
                           else if c = CHR ''+'' then int_magnitude cs
                           else int_magnitude t)
      in case r of None \<Rightarrow> Inl ValueError | Some i \<Rightarrow> Inr i)"

text \<open>Truncation of a float towards zero.\<close>

definition trunc_float :: "int \<Rightarrow> int \<Rightarrow> int" where
  "trunc_float m e =
     (if 0 \<le> e then m * 2 ^ nat e else sgn m * (\<bar>m\<bar> div 2 ^ nat (- e)))"

fun py_int :: "py \<Rightarrow> int result" where
  "py_int (PInt i) = Inr i"
| "py_int (PBool b) = Inr (if b then 1 else 0)"
| "py_int (PFloat (Finite m e)) = Inr (trunc_float m e)"
| "py_int (PFloat NaN) = Inl ValueError"
| "py_int (PFloat f) = Inl OverflowError"
| "py_int (PStr s) = int_of_str s"
| "py_int v = Inl TypeError"

lemmas py_prim_defs [py_defs] =
  py_index_def list_getitem_def list_setitem_def is_space_def strip_def replace_char_def
  lower_def endswith_def is_digit_def digit_val_def int_magnitude_def int_of_str_def
  trunc_float_def is_dict_def

section \<open>Facts about the primitives\<close>

lemma py_index_bounds: "py_index n i = Inr j \<Longrightarrow> j < n"
  by (auto simp: py_index_def Let_def split: if_splits)

lemma py_index_Inr_iff:
  "py_index n i = Inr j \<longleftrightarrow> - int n \<le> i \<and> i < int n \<and> j = nat (if i < 0 then i + int n else i)"
  by (auto simp: py_index_def Let_def)

lemma py_index_error: "py_index n i = Inl e \<Longrightarrow> e = IndexError"
  by (auto simp: py_index_def Let_def split: if_splits)

lemma list_setitem_length: "list_setitem xs k v = Inr ys \<Longrightarrow> length ys = length xs"
  by (auto simp: list_setitem_def bind_exn_eq_Inr split: option.splits)

lemma list_getitem_mem: "list_getitem xs k = Inr v \<Longrightarrow> v \<in> set xs"
  by (auto simp: list_getitem_def bind_exn_eq_Inr dest: py_index_bounds split: option.splits)

lemma py_get_dict [simp]: "py_get (PDict d) k = Inr (case map_of d k of Some v \<Rightarrow> v | None \<Rightarrow> PNone)"
  by simp

lemma py_get_raises_iff: "raises (py_get v k) \<longleftrightarrow> \<not> is_dict v"
  by (cases v) (simp_all add: is_dict_def)

lemma strip_Nil [simp]: "strip [] = []"
  by (simp add: strip_def)

lemma dropWhile_idem: "dropWhile P (dropWhile P xs) = dropWhile P xs"
  by (induction xs) auto

lemma dropWhile_rev_dropWhile:
  "dropWhile P (rev (dropWhile P (rev (dropWhile P xs)))) = rev (dropWhile P (rev (dropWhile P xs)))"
proof (cases "dropWhile P xs")
  case Nil
  then show ?thesis by (simp only: rev.simps dropWhile.simps)
next
  case (Cons y ys)
  then have ny: "\<not> P y"
    using hd_dropWhile [of P xs] by auto
  have "rev (dropWhile P (rev (y # ys))) \<noteq> []"
    using ny by (simp add: dropWhile_append)
  moreover have "hd (rev (dropWhile P (rev (y # ys)))) = y"
    using ny by (induction ys rule: rev_induct) (auto simp: dropWhile_append)
  ultimately show ?thesis
    using ny Cons by (cases "rev (dropWhile P (rev (y # ys)))") auto
qed

lemma strip_idem [simp]: "strip (strip s) = strip s"
  by (simp add: strip_def dropWhile_rev_dropWhile dropWhile_idem)

lemma replace_char_idem [simp]: "replace_char c (replace_char c s) = replace_char c s"
  by (simp add: replace_char_def)

lemma replace_char_notin [simp]: "c \<notin> set (replace_char c s)"
  by (simp add: replace_char_def)

lemma set_strip_subset: "set (strip s) \<subseteq> set s"
proof -
  have "set (dropWhile is_space (rev (dropWhile is_space s))) \<subseteq> set (rev (dropWhile is_space s))"
    by (rule set_dropWhileD [THEN subsetI])
  also have "\<dots> \<subseteq> set s"
    by (auto dest: set_dropWhileD)
  finally show ?thesis by (simp add: strip_def)
qed

lemma replace_char_strip_fix:
  "replace_char c (strip (replace_char c s)) = strip (replace_char c s)"
proof -
  have "c \<notin> set (strip (replace_char c s))"
    using set_strip_subset [of "replace_char c s"] by auto
  then show ?thesis
    unfolding replace_char_def filter_id_conv by blast
qed

lemma lower_char_idem [simp]: "lower_char (lower_char c) = lower_char c"
  by (auto simp: lower_char_def Let_def)

lemma lower_idem [simp]: "lower (lower s) = lower s"
  by (simp add: lower_def)

lemma length_lower [simp]: "length (lower s) = length s"
  by (simp add: lower_def)

lemma endswith_append [simp]: "endswith (s @ suf) suf"
  by (simp add: endswith_def)

lemma endswith_iff: "endswith s suf \<longleftrightarrow> (\<exists>p. s = p @ suf)"
proof
  assume "endswith s suf"
  then have "s = take (length s - length suf) s @ suf"
    by (metis append_take_drop_id endswith_def)
  then show "\<exists>p. s = p @ suf" ..
qed auto

end
