(* ===== verification/Normalizer.thy ===== *)
theory Normalizer
  imports Py_Values
begin

text \<open>
  The Field Normalizer: \<^verbatim>\<open>fill_missing_fields\<close> (\<^verbatim>\<open>src/fai.py\<close> lines 17-21) and the
  clean-up of the \<^verbatim>\<open>height\<close> field that \<^verbatim>\<open>process_image\<close> applies right after it
  (lines 70-73).  The function is written for a dictionary but Python runs it on
  whatever \<^verbatim>\<open>json.loads\<close> returned, so the model covers every kind of value: the
  loop over a dictionary (\<open>fill_dict\<close>), the index loop over a list that is updated
  while it is iterated (\<open>fill_list\<close>), the empty string, and the values that are not
  iterable.  \<open>fill_spec\<close> and \<open>normalize_spec\<close> are the reference definitions the
  loops are proved equal to.
\<close>

section \<open>Definitions\<close>

definition sentinels :: "py list" where
  "sentinels = [PNone, PStr '''', PList [], PDict [], PStr ''none (not provided on the DL)'',
     PStr ''Not available'', PStr ''N/A'', PStr ''NULL'']"

definition na :: py where
  "na = PStr ''na''"

definition fill_key :: "py dict \<Rightarrow> string \<Rightarrow> py dict" where
  "fill_key d key =
     (if (case map_of d key of None \<Rightarrow> True | Some v \<Rightarrow> v \<in> set sentinels)
      then AList.update key na d else d)"

definition fill_dict :: "py dict \<Rightarrow> py dict" where
  "fill_dict d = foldl fill_key d (keys d)"

fun fill_list :: "nat \<Rightarrow> nat \<Rightarrow> py list \<Rightarrow> py list result" where
  "fill_list 0 i xs = Inr xs"
| "fill_list (Suc n) i xs =
     (if length xs \<le> i then Inr xs
      else let key = xs ! i in
        bind_exn (if key \<notin> set xs then Inr True
                  else bind_exn (list_getitem xs key) (\<lambda>v. Inr (v \<in> set sentinels)))
          (\<lambda>c. bind_exn (if c then list_setitem xs key na else Inr xs)
            (\<lambda>xs'. fill_list n (Suc i) xs')))"

fun fill_missing_fields :: "py \<Rightarrow> py result" where
  "fill_missing_fields (PDict d) = Inr (PDict (fill_dict d))"
| "fill_missing_fields (PList xs) = bind_exn (fill_list (length xs) 0 xs) (\<lambda>ys. Inr (PList ys))"
| "fill_missing_fields (PStr s) = (if s = [] then Inr (PStr s) else Inl TypeError)"
| "fill_missing_fields v = Inl TypeError"

definition clean_height :: "py \<Rightarrow> py result" where
  "clean_height v =
     (case v of PStr s \<Rightarrow> Inr (PStr (strip (replace_char (CHR 0x22) s)))
      | _ \<Rightarrow> Inl AttributeError)"

definition normalize_parsed :: "py \<Rightarrow> py result" where
  "normalize_parsed parsed0 =
     bind_exn (fill_missing_fields parsed0) (\<lambda>parsed.
       bind_exn (py_contains_str parsed ''height'') (\<lambda>c.
         if c then
           bind_exn (py_getitem_str parsed ''height'') (\<lambda>h.
             bind_exn (clean_height h) (\<lambda>h'. py_setitem_str parsed ''height'' h'))
         else Inr parsed))"

section \<open>Reference definitions\<close>

text \<open>
  What the normalizer is meant to compute on a dictionary: every value that is a
  sentinel becomes \<open>na\<close>, every other value and the order of the keys stay.  The
  sentinel values are written out by the shape of the value (\<open>is_sentinel\<close>),
  independently of the list the code searches; \<open>sentinels_iff\<close> relates the two.  A list
  passes only when each element is an index into the list itself (\<open>valid_index\<close>).
\<close>

fun is_sentinel :: "py \<Rightarrow> bool" where
  "is_sentinel PNone = True"
| "is_sentinel (PStr s) =
     (s = [] \<or> s = ''none (not provided on the DL)'' \<or> s = ''Not available'' \<or> s = ''N/A'' \<or>
      s = ''NULL'')"
| "is_sentinel (PList xs) = (xs = [])"
| "is_sentinel (PDict d) = (d = [])"
| "is_sentinel v = False"

definition canon :: "py \<Rightarrow> py" where
  "canon v = (if is_sentinel v then na else v)"

definition fill_spec :: "py dict \<Rightarrow> py dict" where
  "fill_spec d = map (\<lambda>(k, v). (k, canon v)) d"

definition normalize_spec :: "py dict \<Rightarrow> py result" where
  "normalize_spec d =
     (case map_of (fill_spec d) ''height'' of
        None \<Rightarrow> Inr (PDict (fill_spec d))
      | Some (PStr s) \<Rightarrow>
          Inr (PDict (map (\<lambda>(k, v). (k, if k = ''height'' then PStr (strip (replace_char (CHR 0x22) s)) else v))
                 (fill_spec d)))
      | Some v \<Rightarrow> Inl AttributeError)"

definition valid_index :: "nat \<Rightarrow> py \<Rightarrow> bool" where
  "valid_index n x = (case as_index x of None \<Rightarrow> False | Some i \<Rightarrow> - int n \<le> i \<and> i < int n)"

definition height_resolved :: "py \<Rightarrow> bool" where
  "height_resolved v =
     (case v of PDict d \<Rightarrow> (case map_of d ''height'' of None \<Rightarrow> True | Some h \<Rightarrow> h \<notin> set sentinels)
      | _ \<Rightarrow> True)"

section \<open>The sentinel list\<close>

lemma sentinels_iff: "v \<in> set sentinels \<longleftrightarrow> is_sentinel v"
  by (cases v) (auto simp: sentinels_def)

lemma canon_eq: "canon v = (if v \<in> set sentinels then na else v)"
  by (simp add: canon_def sentinels_iff)

lemmas normalizer_defs =
  fill_key_def fill_dict_def sentinels_def na_def clean_height_def normalize_parsed_def
  canon_eq fill_spec_def normalize_spec_def valid_index_def height_resolved_def

section \<open>The dictionary loop\<close>

lemma na_not_sentinel [simp]: "na \<notin> set sentinels"
  by (simp add: na_def sentinels_def)

lemma canon_idem [simp]: "canon (canon v) = canon v"
  by (simp add: canon_eq)

lemma canon_not_sentinel [simp]: "canon v \<notin> set sentinels"
  by (simp add: canon_eq)

lemma keys_fill_spec [simp]: "keys (fill_spec d) = keys d"
  by (induction d) (auto simp: fill_spec_def)

lemma fill_key_present:
  "distinct (keys d) \<Longrightarrow> k \<in> set (keys d) \<Longrightarrow>
   fill_key d k = map (\<lambda>(k', v). (k', if k' = k then canon v else v)) d"
proof (induction d)
  case Nil
  then show ?case by simp
next
  case (Cons p d)
  obtain a b where p: "p = (a, b)" by (cases p)
  show ?case
  proof (cases "a = k")
    case True
    with Cons.prems p have "k \<notin> set (keys d)" by auto
    then have "map (\<lambda>(k', v). (k', if k' = k then canon v else v)) d = d"
      by (induction d) auto
    with True p show ?thesis
      by (simp add: fill_key_def canon_eq)
  next
    case False
    with Cons.prems p have "fill_key d k = map (\<lambda>(k', v). (k', if k' = k then canon v else v)) d"
      by (intro Cons.IH) auto
    with False p show ?thesis
      by (auto simp: fill_key_def split: option.splits if_splits)
  qed
qed

lemma keys_fill_key: "k \<in> set (keys d) \<Longrightarrow> keys (fill_key d k) = keys d"
  by (simp add: fill_key_def keys_update_present)

lemma keys_foldl_fill_key:
  "set ks \<subseteq> set (keys d) \<Longrightarrow> keys (foldl fill_key d ks) = keys d"
proof (induction ks arbitrary: d)
  case Nil
  then show ?case by simp
next
  case (Cons k ks)
  then have k: "keys (fill_key d k) = keys d"
    by (simp add: keys_fill_key)
  with Cons.prems have "keys (foldl fill_key (fill_key d k) ks) = keys (fill_key d k)"
    by (intro Cons.IH) simp
  with k show ?case by simp
qed

lemma keys_fill_dict [simp]: "keys (fill_dict d) = keys d"
  by (simp add: fill_dict_def keys_foldl_fill_key)

lemma foldl_fill_key:
  "distinct (keys d) \<Longrightarrow> set ks \<subseteq> set (keys d) \<Longrightarrow>
   foldl fill_key d ks = map (\<lambda>(k, v). (k, if k \<in> set ks then canon v else v)) d"
proof (induction ks arbitrary: d)
  case Nil
  then show ?case by simp
next
  case (Cons k ks)
  let ?d1 = "map (\<lambda>(k', v). (k', if k' = k then canon v else v)) d"
  have d1: "fill_key d k = ?d1"
    using Cons.prems by (intro fill_key_present) auto
  have k1: "keys ?d1 = keys d"
    by simp
  have "foldl fill_key ?d1 ks = map (\<lambda>(k, v). (k, if k \<in> set ks then canon v else v)) ?d1"
    using Cons.prems by (intro Cons.IH) (simp_all only: k1, simp)
  then show ?case
    by (auto simp: d1)
qed

lemma fill_dict_eq_spec: "distinct (keys d) \<Longrightarrow> fill_dict d = fill_spec d"
  by (force simp: fill_dict_def foldl_fill_key fill_spec_def)

lemma dom_fill_spec [simp]: "fst ` set (fill_spec d) = fst ` set d"
  by (induction d) (auto simp: fill_spec_def)

lemma fill_spec_idem [simp]: "fill_spec (fill_spec d) = fill_spec d"
  by (induction d) (auto simp: fill_spec_def)

lemma map_of_fill_spec: "map_of (fill_spec d) k = map_option canon (map_of d k)"
  by (induction d) (auto simp: fill_spec_def)

lemma sentinel_not_index: "v \<in> set sentinels \<Longrightarrow> as_index v = None"
  by (auto simp: sentinels_def)

lemma clean_height_na [simp]: "clean_height na = Inr na"
  by (simp add: clean_height_def na_def py_defs)

lemma clean_height_raises_iff: "raises (clean_height v) \<longleftrightarrow> (\<forall>s. v \<noteq> PStr s)"
  by (cases v) (simp_all add: clean_height_def)

lemma normalize_dict_eq:
  assumes "distinct (keys d)"
  shows "normalize_parsed (PDict d) = normalize_spec d"
proof (cases "map_of (fill_spec d) ''height''")
  case None
  then have "''height'' \<notin> set (keys (fill_spec d))"
    by (simp add: map_of_eq_None_iff)
  with None assms show ?thesis
    by (simp add: normalize_parsed_def normalize_spec_def fill_dict_eq_spec)
next
  case (Some v)
  then have "''height'' \<in> set (keys (fill_spec d))"
    by (metis map_of_eq_None_keys option.distinct(1))
  moreover have "distinct (keys (fill_spec d))"
    using assms by simp
  ultimately show ?thesis
    using Some assms
    by (cases v)
       (simp_all add: normalize_parsed_def normalize_spec_def fill_dict_eq_spec clean_height_def
          update_map_value del: keys_fill_spec)
qed

section \<open>The list loop\<close>

lemma list_getitem_Inr_iff:
  "list_getitem xs k = Inr v \<longleftrightarrow>
     (\<exists>i. as_index k = Some i \<and> - int (length xs) \<le> i \<and> i < int (length xs) \<and>
          v = xs ! nat (if i < 0 then i + int (length xs) else i))"
  by (auto simp: list_getitem_def bind_exn_eq_Inr py_index_Inr_iff split: option.splits)

lemma list_setitem_Inr_iff:
  "list_setitem xs k v = Inr ys \<longleftrightarrow>
     (\<exists>i. as_index k = Some i \<and> - int (length xs) \<le> i \<and> i < int (length xs) \<and>
          ys = xs[nat (if i < 0 then i + int (length xs) else i) := v])"
  by (auto simp: list_setitem_def bind_exn_eq_Inr py_index_Inr_iff split: option.splits)

lemma list_getitem_valid: "list_getitem xs k = Inr v \<Longrightarrow> valid_index (length xs) k"
  by (auto simp: list_getitem_Inr_iff valid_index_def)

lemma list_getitem_not_index: "as_index k = None \<Longrightarrow> list_getitem xs k = Inl TypeError"
  by (simp add: list_getitem_def)

lemma as_index_na [simp]: "as_index na = None"
  by (simp add: na_def)

lemma fill_list_Suc:
  "i < length xs \<Longrightarrow>
   fill_list (Suc n) i xs =
     bind_exn (list_getitem xs (xs ! i)) (\<lambda>v.
       if v \<in> set sentinels then bind_exn (list_setitem xs (xs ! i) na) (fill_list n (Suc i))
       else fill_list n (Suc i) xs)"
  by (cases "list_getitem xs (xs ! i)") (simp_all add: Let_def)

lemma fill_list_done: "length xs \<le> i \<Longrightarrow> fill_list n i xs = Inr xs"
  by (cases n) simp_all

declare fill_list.simps [simp del]

lemma fill_list_fails:
  "i \<le> j \<Longrightarrow> j < length xs \<Longrightarrow> as_index (xs ! j) = None \<Longrightarrow> length xs \<le> i + n \<Longrightarrow>
   raises (fill_list n i xs)"
proof (induction n arbitrary: i xs)
  case 0
  then show ?case by simp
next
  case (Suc n)
  from Suc.prems have i: "i < length xs" by simp
  show ?case
  proof (cases "i = j")
    case True
    with Suc.prems i show ?thesis
      by (simp add: fill_list_Suc list_getitem_not_index)
  next
    case False
    have step: "raises (fill_list n (Suc i) ys)"
      if "length ys = length xs" "as_index (ys ! j) = None" for ys
      using that Suc.prems False by (intro Suc.IH) auto
    show ?thesis
    proof (cases "list_getitem xs (xs ! i)")
      case (Inl e)
      with i show ?thesis by (simp add: fill_list_Suc)
    next
      case (Inr v)
      show ?thesis
      proof (cases "v \<in> set sentinels")
        case True
        have "raises (fill_list n (Suc i) ys)" if "list_setitem xs (xs ! i) na = Inr ys" for ys
        proof (rule step)
          show "length ys = length xs"
            using that by (rule list_setitem_length)
          from that obtain k where "ys = xs[k := na]"
            by (auto simp: list_setitem_Inr_iff)
          then show "as_index (ys ! j) = None"
            using Suc.prems by (cases "k = j") auto
        qed
        with i Inr True show ?thesis
          by (cases "list_setitem xs (xs ! i) na") (simp_all add: fill_list_Suc)
      next
        case False
        with i Inr step [of xs] Suc.prems show ?thesis
          by (simp add: fill_list_Suc)
      qed
    qed
  qed
qed

lemma list_get_set_same:
  "list_getitem xs k = Inr v \<Longrightarrow> list_setitem xs k w = Inr zs \<Longrightarrow>
   \<exists>j<length xs. v = xs ! j \<and> zs = xs[j := w]"
  by (auto simp: list_getitem_def list_setitem_def bind_exn_eq_Inr dest: py_index_bounds
        split: option.splits)

lemma sentinel_not_valid: "v \<in> set sentinels \<Longrightarrow> \<not> valid_index n v"
  by (simp add: valid_index_def sentinel_not_index)

lemma fill_list_ok:
  "\<forall>x\<in>set xs. valid_index (length xs) x \<Longrightarrow> fill_list n i xs = Inr xs"
proof (induction n arbitrary: i)
  case 0
  then show ?case by (simp add: fill_list.simps)
next
  case (Suc n)
  show ?case
  proof (cases "i < length xs")
    case True
    with Suc.prems have "valid_index (length xs) (xs ! i)" by simp
    then obtain v where v: "list_getitem xs (xs ! i) = Inr v"
      by (auto simp: list_getitem_Inr_iff valid_index_def split: option.splits)
    then have "v \<in> set xs" by (rule list_getitem_mem)
    with Suc.prems have "v \<notin> set sentinels"
      using sentinel_not_valid by blast
    with True v Suc show ?thesis
      by (simp add: fill_list_Suc)
  next
    case False
    then show ?thesis by (simp add: fill_list_done)
  qed
qed

lemma fill_list_unchanged:
  "fill_list n i xs = Inr ys \<Longrightarrow> length xs \<le> i + n \<Longrightarrow>
   (\<forall>j<i. valid_index (length xs) (xs ! j)) \<Longrightarrow>
   ys = xs \<and> (\<forall>j<length xs. valid_index (length xs) (xs ! j))"
proof (induction n arbitrary: i)
  case 0
  then show ?case by (simp add: fill_list.simps)
next
  case (Suc n)
  show ?case
  proof (cases "i < length xs")
    case False
    with Suc.prems show ?thesis by (simp add: fill_list_done)
  next
    case True
    with Suc.prems(1) obtain v where v: "list_getitem xs (xs ! i) = Inr v"
      and rest: "(if v \<in> set sentinels then bind_exn (list_setitem xs (xs ! i) na) (fill_list n (Suc i))
                  else fill_list n (Suc i) xs) = Inr ys"
      by (auto simp: fill_list_Suc bind_exn_eq_Inr)
    from v have vi: "valid_index (length xs) (xs ! i)"
      by (rule list_getitem_valid)
    have inv: "\<forall>j<Suc i. valid_index (length xs) (xs ! j)"
      using Suc.prems(3) vi by (auto simp: less_Suc_eq)
    have "v \<notin> set sentinels"
    proof
      assume s: "v \<in> set sentinels"
      with rest obtain zs where zs: "list_setitem xs (xs ! i) na = Inr zs"
        and run: "fill_list n (Suc i) zs = Inr ys"
        by (auto simp: bind_exn_eq_Inr)
      from v zs obtain j where j: "j < length xs" "v = xs ! j" "zs = xs[j := na]"
        using list_get_set_same by blast
      from s j inv have "Suc i \<le> j"
        using sentinel_not_valid [of v "length xs"] by (metis not_less_eq_eq not_le)
      moreover have "as_index (zs ! j) = None"
        using j by simp
      ultimately have "raises (fill_list n (Suc i) zs)"
        using j Suc.prems(2) by (intro fill_list_fails [of "Suc i" j]) auto
      with run show False by simp
    qed
    with rest have "fill_list n (Suc i) xs = Inr ys" by simp
    then show ?thesis
      using Suc.prems(2) inv by (intro Suc.IH) auto
  qed
qed

lemma fill_missing_fields_list_iff:
  "fill_missing_fields (PList xs) = Inr v \<longleftrightarrow>
     v = PList xs \<and> list_all (valid_index (length xs)) xs"
proof
  assume "fill_missing_fields (PList xs) = Inr v"
  then obtain ys where "fill_list (length xs) 0 xs = Inr ys" "v = PList ys"
    by (auto simp: bind_exn_eq_Inr)
  with fill_list_unchanged [of "length xs" 0 xs ys]
  show "v = PList xs \<and> list_all (valid_index (length xs)) xs"
    by (auto simp: list_all_length)
next
  assume "v = PList xs \<and> list_all (valid_index (length xs)) xs"
  then show "fill_missing_fields (PList xs) = Inr v"
    by (simp add: fill_list_ok list_all_iff)
qed

section \<open>Normalization of every kind of value\<close>

lemma valid_index_not_str: "valid_index n (PStr s) = False"
  by (simp add: valid_index_def)

lemma normalize_list:
  "normalize_parsed (PList xs) = Inr v \<longleftrightarrow> v = PList xs \<and> list_all (valid_index (length xs)) xs"
proof -
  have "PStr ''height'' \<notin> set xs" if "list_all (valid_index (length xs)) xs"
    using that by (auto simp: list_all_iff valid_index_not_str)
  then show ?thesis
    unfolding normalize_parsed_def bind_exn_eq_Inr
    by (auto simp: fill_missing_fields_list_iff simp del: fill_missing_fields.simps)
qed

lemma normalize_non_container:
  "normalize_parsed PNone = Inl TypeError" "normalize_parsed (PBool b) = Inl TypeError"
  "normalize_parsed (PInt i) = Inl TypeError" "normalize_parsed (PFloat f) = Inl TypeError"
  "normalize_parsed (PStr s) = (if s = [] then Inr (PStr []) else Inl TypeError)"
  by (simp_all add: normalize_parsed_def)

lemma fill_spec_fix: "(\<forall>v\<in>snd ` set d. v \<notin> set sentinels) \<Longrightarrow> fill_spec d = d"
  by (induction d) (auto simp: fill_spec_def canon_eq)

lemma snd_fill_spec: "v \<in> snd ` set (fill_spec d) \<Longrightarrow> v \<notin> set sentinels"
  by (auto simp: fill_spec_def)

lemma map_of_set_height:
  "map_of (map (\<lambda>(k, v). (k, if k = ''height'' then h else v)) d) k =
     (if k = ''height'' then map_option (\<lambda>v. h) (map_of d k) else map_of d k)"
  by (induction d) auto

lemma map_of_set_height_unfold:
  "map_of (map (\<lambda>p. (fst p, if fst p = ''height'' then h else snd p)) d) k =
     (if k = ''height'' then map_option (\<lambda>v. h) (map_of d k) else map_of d k)"
  by (induction d) auto

lemma normalize_spec_fields:
  assumes "normalize_spec d = Inr v"
  shows "\<exists>d'. v = PDict d' \<and> keys d' = keys d \<and>
    (\<forall>k. k \<noteq> ''height'' \<longrightarrow> map_of d' k = map_option canon (map_of d k))"
  using assms
  by (auto simp: normalize_spec_def map_of_set_height_unfold map_of_fill_spec comp_def
      case_prod_unfold split: option.splits py.splits)

lemma normalize_spec_str:
  "map_of (fill_spec d) ''height'' = Some (PStr s) \<Longrightarrow>
   normalize_spec d =
     Inr (PDict (map (\<lambda>(k, v). (k, if k = ''height'' then PStr (strip (replace_char (CHR 0x22) s)) else v))
            (fill_spec d)))"
  by (simp add: normalize_spec_def)

lemma clean_na: "strip (replace_char (CHR 0x22) ''na'') = ''na''"
  by (simp add: py_defs)

section \<open>Properties\<close>

text \<open>C7: On a dictionary with distinct keys the loop of \<^verbatim>\<open>fill_missing_fields\<close> never
  raises and computes exactly the reference: each sentinel value (\<^verbatim>\<open>None\<close>, the empty
  string, list and dictionary, and the four placeholder strings) is replaced by
  \<^verbatim>\<open>"na"\<close>, every other value is kept, and the keys keep their order.\<close>
theorem fill_dict_refines_spec:
  assumes "distinct (keys d)"
  shows "fill_missing_fields (PDict d) = Inr (PDict (fill_spec d))"
  using assms by (simp add: fill_dict_eq_spec)

theorem fill_dict_refines_spec_witness:
  "distinct (keys [(''name'', PStr ''N/A''), (''dob'', PNone), (''sex'', PStr ''F'')]) \<and>
   fill_missing_fields (PDict [(''name'', PStr ''N/A''), (''dob'', PNone), (''sex'', PStr ''F'')])
     = Inr (PDict [(''name'', PStr ''na''), (''dob'', PStr ''na''), (''sex'', PStr ''F'')])"
proof -
  have d: "distinct (keys [(''name'', PStr ''N/A''), (''dob'', PNone), (''sex'', PStr ''F'')])"
    by simp
  show ?thesis
    using d fill_dict_refines_spec [OF d]
    by (simp add: fill_spec_def canon_eq sentinels_def na_def)
qed

text \<open>C24: \<^verbatim>\<open>fill_missing_fields\<close> returns a dictionary with exactly the keys of its
  argument, in the same order: the test \<^verbatim>\<open>key not in data\<close> can never hold for a key
  taken from \<^verbatim>\<open>data\<close>, so a field that the response lacks is not added.\<close>
theorem fill_missing_fields_keys:
  "\<exists>d'. fill_missing_fields (PDict d) = Inr (PDict d') \<and> keys d' = keys d"
  by simp

text \<open>C5: Lines 70-73 on a dictionary with distinct keys equal the reference
  \<open>normalize_spec\<close>: the sentinels are filled in, then a \<^verbatim>\<open>height\<close> that is a string
  loses its double quotes and its surrounding white space, and a \<^verbatim>\<open>height\<close> of any
  other type raises \<^verbatim>\<open>AttributeError\<close>.\<close>
theorem normalize_refines_spec:
  assumes "distinct (keys d)"
  shows "normalize_parsed (PDict d) = normalize_spec d"
  using assms by (rule normalize_dict_eq)

theorem normalize_refines_spec_witness:
  "distinct (keys [(''name'', PStr ''N/A''), (''height'', PStr '' 5'-09\" '')]) \<and>
   normalize_parsed (PDict [(''name'', PStr ''N/A''), (''height'', PStr '' 5'-09\" '')])
     = Inr (PDict [(''name'', PStr ''na''), (''height'', PStr ''5'-09'')])"
proof -
  have d: "distinct (keys [(''name'', PStr ''N/A''), (''height'', PStr '' 5'-09\" '')])"
    by simp
  show ?thesis
    using d normalize_refines_spec [OF d]
    by (simp add: normalize_spec_def fill_spec_def canon_eq sentinels_def na_def py_defs)
qed

text \<open>C25: Normalizing a dictionary fails exactly when it has a \<^verbatim>\<open>height\<close> that is
  neither a sentinel nor a string (a number, a boolean, a non-empty list or
  dictionary), and then with \<^verbatim>\<open>AttributeError\<close> from \<^verbatim>\<open>.replace\<close>.\<close>
theorem normalize_raises_dict:
  assumes "distinct (keys d)"
  shows "normalize_parsed (PDict d) = Inl e \<longleftrightarrow>
    e = AttributeError \<and> (\<exists>v. map_of d ''height'' = Some v \<and> v \<notin> set sentinels \<and> (\<forall>s. v \<noteq> PStr s))"
proof (cases "map_of d ''height''")
  case None
  with assms show ?thesis
    by (simp add: normalize_dict_eq normalize_spec_def map_of_fill_spec)
next
  case (Some v)
  with assms show ?thesis
    by (cases v) (auto simp: normalize_dict_eq normalize_spec_def map_of_fill_spec canon_eq na_def)
qed

theorem normalize_raises_dict_witness:
  "distinct (keys [(''name'', PStr ''A''), (''height'', PInt 180)]) \<and>
   normalize_parsed (PDict [(''name'', PStr ''A''), (''height'', PInt 180)]) = Inl AttributeError"
proof -
  have d: "distinct (keys [(''name'', PStr ''A''), (''height'', PInt 180)])"
    by simp
  show ?thesis
    using d normalize_raises_dict [OF d, of AttributeError]
    by (simp add: sentinels_def)
qed

text \<open>C22: Normalization is not idempotent and can leave a sentinel behind.  Whenever
  a dictionary has a \<^verbatim>\<open>height\<close> string that is not a sentinel but is cleaned to one
  (two double quotes, say, or \<^verbatim>\<open>N/A\<close> between quotes or blanks), the fill keeps it, the
  clean-up stores the sentinel, and a second pass over the result replaces it by
  \<^verbatim>\<open>"na"\<close>: the second result differs from the first.\<close>

theorem normalize_not_idempotent:
  assumes "distinct (keys d)" and "map_of d ''height'' = Some (PStr s)"
    and "PStr s \<notin> set sentinels"
    and "PStr (strip (replace_char (CHR 0x22) s)) \<in> set sentinels"
  shows "\<exists>d1 d2. normalize_parsed (PDict d) = Inr (PDict d1) \<and>
    map_of d1 ''height'' = Some (PStr (strip (replace_char (CHR 0x22) s))) \<and>
    normalize_parsed (PDict d1) = Inr (PDict d2) \<and> map_of d2 ''height'' = Some na \<and> d2 \<noteq> d1"
proof -
  let ?t = "strip (replace_char (CHR 0x22) s)"
  let ?d1 = "map (\<lambda>(k, v). (k, if k = ''height'' then PStr ?t else v)) (fill_spec d)"
  let ?d2 = "map (\<lambda>(k, v). (k, if k = ''height'' then PStr (strip (replace_char (CHR 0x22) ''na'')) else v))
    (fill_spec ?d1)"
  have look: "map_of (fill_spec d) ''height'' = Some (PStr s)"
    using assms(2,3) by (simp add: map_of_fill_spec canon_eq)
  have first: "normalize_parsed (PDict d) = Inr (PDict ?d1)"
    using assms(1) normalize_spec_str [OF look] by (simp add: normalize_dict_eq)
  have h1: "map_of ?d1 ''height'' = Some (PStr ?t)"
    using look by (simp add: map_of_set_height)
  have "distinct (keys ?d1)"
    using assms(1) by (simp add: comp_def case_prod_unfold)
  moreover have look1: "map_of (fill_spec ?d1) ''height'' = Some (PStr ''na'')"
    using h1 assms(4) by (simp add: map_of_fill_spec canon_eq na_def)
  ultimately have second: "normalize_parsed (PDict ?d1) = Inr (PDict ?d2)"
    using normalize_spec_str [OF look1] by (simp add: normalize_dict_eq)
  have h2: "map_of ?d2 ''height'' = Some na"
    using look1 by (simp add: map_of_set_height clean_na na_def)
  with h1 assms(4) have "?d2 \<noteq> ?d1"
    by (metis na_not_sentinel option.inject)
  with first h1 second h2 show ?thesis
    by blast
qed

theorem normalize_not_idempotent_witness:
  "normalize_parsed (PDict [(''name'', PStr ''A''), (''height'', PStr ''\"N/A\"'')]) =
     Inr (PDict [(''name'', PStr ''A''), (''height'', PStr ''N/A'')]) \<and>
   normalize_parsed (PDict [(''name'', PStr ''A''), (''height'', PStr ''N/A'')]) =
     Inr (PDict [(''name'', PStr ''A''), (''height'', PStr ''na'')]) \<and>
   (\<exists>d1 d2. normalize_parsed (PDict [(''name'', PStr ''A''), (''height'', PStr ''\"N/A\"'')]) = Inr (PDict d1) \<and>
      normalize_parsed (PDict d1) = Inr (PDict d2) \<and> d2 \<noteq> d1)"
proof -
  have "PStr (strip (replace_char (CHR 0x22) ''\"N/A\"'')) \<in> set sentinels"
    by (simp add: sentinels_def py_defs)
  from normalize_not_idempotent [of "[(''name'', PStr ''A''), (''height'', PStr ''\"N/A\"'')]" "''\"N/A\"''", OF _ _ _ this]
  have "\<exists>d1 d2. normalize_parsed (PDict [(''name'', PStr ''A''), (''height'', PStr ''\"N/A\"'')]) = Inr (PDict d1) \<and>
      normalize_parsed (PDict d1) = Inr (PDict d2) \<and> d2 \<noteq> d1"
    by (simp add: sentinels_def) blast
  then show ?thesis
    by (simp add: normalizer_defs py_defs)
qed

text \<open>C23: When the cleaned \<^verbatim>\<open>height\<close> of the result is not itself a sentinel,
  normalizing a well-formed value a second time changes nothing.\<close>
theorem normalize_idem:
  assumes "wf_py v" and "normalize_parsed v = Inr v'" and "height_resolved v'"
  shows "normalize_parsed v' = Inr v'"
proof (cases v)
  case (PDict d)
  with assms have d: "distinct (keys d)" and spec: "normalize_spec d = Inr v'"
    by (simp_all add: normalize_dict_eq)
  show ?thesis
  proof (cases "map_of (fill_spec d) ''height''")
    case None
    with spec have v': "v' = PDict (fill_spec d)"
      by (simp add: normalize_spec_def)
    with None d show ?thesis
      by (simp add: normalize_dict_eq normalize_spec_def)
  next
    case (Some h)
    with spec obtain s where h: "h = PStr s"
      and v': "v' = PDict (map (\<lambda>(k, v). (k, if k = ''height'' then PStr (strip (replace_char (CHR 0x22) s)) else v))
                 (fill_spec d))"
      by (auto simp: normalize_spec_def split: py.splits)
    let ?t = "strip (replace_char (CHR 0x22) s)"
    let ?d' = "map (\<lambda>(k, v). (k, if k = ''height'' then PStr ?t else v)) (fill_spec d)"
    have look: "map_of ?d' ''height'' = Some (PStr ?t)"
      using Some by (simp add: map_of_map_value)
    with assms(3) v' have t: "PStr ?t \<notin> set sentinels"
      by (simp add: height_resolved_def)
    have "\<forall>v\<in>snd ` set ?d'. v \<notin> set sentinels"
      using t snd_fill_spec [of _ d] by (auto split: if_splits) (metis image_eqI snd_conv)
    then have fixed: "fill_spec ?d' = ?d'"
      by (rule fill_spec_fix)
    have "distinct (keys ?d')"
      using d by simp
    then have "normalize_parsed (PDict ?d') = normalize_spec ?d'"
      by (rule normalize_dict_eq)
    also have "\<dots> = Inr (PDict ?d')"
      unfolding normalize_spec_def fixed look
      by (simp add: map_map comp_def case_prod_unfold replace_char_strip_fix cong: map_cong)
    finally show ?thesis using v' by simp
  qed
next
  case (PList xs)
  with assms show ?thesis by (simp add: normalize_list)
qed (use assms in \<open>auto simp: normalize_non_container split: if_splits\<close>)

theorem normalize_idem_witness:
  "wf_py (PDict [(''dob'', PNone), (''height'', PStr '' 5'-09\" '')]) \<and>
   normalize_parsed (PDict [(''dob'', PNone), (''height'', PStr '' 5'-09\" '')])
     = Inr (PDict [(''dob'', PStr ''na''), (''height'', PStr ''5'-09'')]) \<and>
   height_resolved (PDict [(''dob'', PStr ''na''), (''height'', PStr ''5'-09'')]) \<and>
   normalize_parsed (PDict [(''dob'', PStr ''na''), (''height'', PStr ''5'-09'')])
     = Inr (PDict [(''dob'', PStr ''na''), (''height'', PStr ''5'-09'')])"
proof -
  have a: "wf_py (PDict [(''dob'', PNone), (''height'', PStr '' 5'-09\" '')])"
    by simp
  have b: "normalize_parsed (PDict [(''dob'', PNone), (''height'', PStr '' 5'-09\" '')])
     = Inr (PDict [(''dob'', PStr ''na''), (''height'', PStr ''5'-09'')])"
    by (simp add: normalizer_defs py_defs)
  have c: "height_resolved (PDict [(''dob'', PStr ''na''), (''height'', PStr ''5'-09'')])"
    by (simp add: height_resolved_def sentinels_def)
  show ?thesis
    using a b c normalize_idem [OF a b c] by simp
qed

text \<open>C26: A JSON array passes \<^verbatim>\<open>fill_missing_fields\<close> only unchanged, and only when
  every element is an integer or boolean that indexes the array itself: the loop
  subscripts the list with its own elements, so any other element raises
  \<^verbatim>\<open>TypeError\<close> or \<^verbatim>\<open>IndexError\<close>, also an element that the loop itself has just
  replaced by \<^verbatim>\<open>"na"\<close>.\<close>
theorem fill_missing_fields_list:
  "fill_missing_fields (PList xs) = Inr v \<longleftrightarrow>
     v = PList xs \<and> list_all (valid_index (length xs)) xs"
  by (rule fill_missing_fields_list_iff)

text \<open>C31: After the normalization of a dictionary with distinct keys no field other
  than \<^verbatim>\<open>height\<close> holds a sentinel: the result has the keys of the argument in their
  order, and each such field holds the value it had, or \<^verbatim>\<open>"na"\<close> when that value was a
  sentinel.\<close>

theorem normalize_fills_fields:
  assumes "distinct (keys d)" and "normalize_parsed (PDict d) = Inr v"
  shows "\<exists>d'. v = PDict d' \<and> keys d' = keys d \<and>
    (\<forall>k x. k \<noteq> ''height'' \<and> map_of d k = Some x \<longrightarrow>
       map_of d' k = Some (if x \<in> set sentinels then na else x) \<and>
       (if x \<in> set sentinels then na else x) \<notin> set sentinels)"
proof -
  from assms have "normalize_spec d = Inr v"
    by (simp add: normalize_dict_eq)
  from normalize_spec_fields [OF this] show ?thesis
    by (auto simp: canon_eq)
qed

theorem normalize_fills_fields_witness:
  "\<exists>d'. normalize_parsed (PDict [(''dob'', PNone), (''sex'', PStr ''F''), (''height'', PStr ''6 ft'')])
       = Inr (PDict d') \<and>
     keys d' = [''dob'', ''sex'', ''height''] \<and> map_of d' ''dob'' = Some (PStr ''na'') \<and>
     map_of d' ''sex'' = Some (PStr ''F'')"
proof -
  have a: "distinct (keys [(''dob'', PNone), (''sex'', PStr ''F''), (''height'', PStr ''6 ft'')])"
    by simp
  have b: "normalize_parsed (PDict [(''dob'', PNone), (''sex'', PStr ''F''), (''height'', PStr ''6 ft'')])
     = Inr (PDict [(''dob'', PStr ''na''), (''sex'', PStr ''F''), (''height'', PStr ''6 ft'')])"
    by (simp add: normalizer_defs py_defs)
  from normalize_fills_fields [OF a b] show ?thesis
    unfolding b by (simp add: sentinels_def na_def)
qed

end
