(* ===== verification/Worker.thy ===== *)
theory Worker
  imports Normalizer
begin

text \<open>
  The Extraction Worker and the Face Cropper: \<^verbatim>\<open>process_image\<close> (\<^verbatim>\<open>src/fai.py\<close> lines
  23-88).  The collaborators are the fields of the record \<open>world\<close>: \<open>llm_init\<close> is the
  construction of the client (line 91, \<open>None\<close> for success), \<open>infer\<close> is the
  inference call together with the attribute path to the reply's content; its first
  argument names the invocation by the item's file name (so two files with equal
  content may get different replies), its second is the request of lines 26-66, the
  value \<open>request\<close> built from the prompt, the data URI and the response schema.
  \<open>json_parse\<close> is \<^verbatim>\<open>json.loads\<close> on a string; \<open>image_open\<close>, \<open>image_crop\<close> and
  \<open>image_save\<close> are the three calls of the imaging library (lines 81, 82, 84), each
  \<open>None\<close> for success, on images named by how they were obtained (\<open>image\<close>);
  \<open>exc_str\<close> is \<^verbatim>\<open>str(e)\<close>.  \<open>args\<close> is the namespace of the command line
  (lines 161-170): \<open>default_args\<close> holds the defaults and \<open>cli_args\<close> the restriction
  of the format to the three choices; parsing the command line is left to the library.  \<open>process_image_try\<close> is the
  body of the \<^verbatim>\<open>try\<close> block, \<open>process_image\<close> adds the \<^verbatim>\<open>except\<close> clause and returns
  the pair of line 86 or 88 together with the crops written.  Paths follow
  \<^verbatim>\<open>posixpath\<close>.  The section of the worked example fixes one world, one configuration
  and a reply with the thirteen fields of the schema, for the witnesses.
\<close>

section \<open>Definitions\<close>

record args =
  input_dir :: string
  output_path :: string
  max_workers :: int
  output_format :: string
  model :: string
  face_dir :: "string option"

type_synonym box = "int \<times> int \<times> int \<times> int"

datatype image = Opened string | Cropped image box

record world =
  llm_init :: "string \<Rightarrow> exn option"
  infer :: "string \<Rightarrow> py \<Rightarrow> py result"
  json_parse :: "string \<Rightarrow> py result"
  image_open :: "string \<Rightarrow> exn option"
  image_crop :: "image \<Rightarrow> box \<Rightarrow> exn option"
  image_save :: "image \<Rightarrow> string \<Rightarrow> exn option"
  exc_str :: "exn \<Rightarrow> string"

definition default_args :: "string \<Rightarrow> args" where
  "default_args dir =
     \<lparr>input_dir = dir, output_path = ''identity_outputs.json'', max_workers = 4,
      output_format = ''json'', model = ''qwen2p5-vl-32b-instruct'', face_dir = None\<rparr>"

definition cli_args :: "args \<Rightarrow> bool" where
  "cli_args a \<longleftrightarrow> output_format a \<in> {''json'', ''txt'', ''csv''}"

definition prompt :: string where
  "prompt =
     ''Classify the ID type as 'passport' or 'DL'. Then extract fields: '' @
     ''DL number, expiry, name, DOB, address, sex, height, weight, hair, eyes. '' @
     ''Also provide the face crop bounding box. '' @
     ''Detect if any part of the ID (text, photo, structure) appears generated or altered. '' @
     ''Output all in JSON, and include a final field named 'altered' with value True or False.''"

definition schema_properties :: "py dict" where
  "schema_properties =
     [(''ID_type'', PDict [(''type'', PStr ''string'')]),
      (''dl_number'', PDict [(''type'', PStr ''string'')]),
      (''expiry'', PDict [(''type'', PStr ''string'')]),
      (''name'', PDict [(''type'', PStr ''string'')]),
      (''dob'', PDict [(''type'', PStr ''string'')]),
      (''address'', PDict [(''type'', PStr ''string'')]),
      (''sex'', PDict [(''type'', PStr ''string'')]),
      (''height'', PDict [(''type'', PStr ''string'')]),
      (''weight'', PDict [(''type'', PStr ''string'')]),
      (''hair'', PDict [(''type'', PStr ''string'')]),
      (''eyes'', PDict [(''type'', PStr ''string'')]),
      (''altered'', PDict [(''type'', PStr ''boolean'')]),
      (''face_bbox'', PDict [(''type'', PStr ''array''), (''items'', PDict [(''type'', PStr ''number'')])])]"

definition response_format :: py where
  "response_format = PDict
     [(''type'', PStr ''json_object''),
      (''schema'', PDict
         [(''type'', PStr ''object''),
          (''properties'', PDict schema_properties),
          (''required'', PList [PStr ''ID_type'', PStr ''name'', PStr ''dob'', PStr ''altered''])])]"

definition request :: "string \<Rightarrow> py" where
  "request image_data_uri = PDict
     [(''messages'', PList
         [PDict
            [(''role'', PStr ''user''),
             (''content'', PList
                [PDict [(''type'', PStr ''text''), (''text'', PStr prompt)],
                 PDict [(''type'', PStr ''image_url''),
                        (''image_url'', PDict [(''url'', PStr image_data_uri)])]])]]),
      (''response_format'', response_format)]"

definition path_join :: "string \<Rightarrow> string \<Rightarrow> string" where
  "path_join a b =
     (if b \<noteq> [] \<and> hd b = CHR ''/'' then b
      else if a = [] \<or> last a = CHR ''/'' then a @ b
      else a @ ''/'' @ b)"

definition rfind :: "char \<Rightarrow> string \<Rightarrow> int" where
  "rfind c s =
     (if c \<in> set s then int (length s) - 1 - int (length (takeWhile (\<lambda>x. x \<noteq> c) (rev s)))
      else - 1)"

definition splitext :: "string \<Rightarrow> string \<times> string" where
  "splitext p =
     (let sepIndex = rfind (CHR ''/'') p; dotIndex = rfind (CHR ''.'') p
      in if dotIndex > sepIndex \<and>
            (\<exists>x\<in>set (drop (nat (sepIndex + 1)) (take (nat dotIndex) p)). x \<noteq> CHR ''.'')
         then (take (nat dotIndex) p, drop (nat dotIndex) p)
         else (p, []))"

definition face_crop_path :: "string \<Rightarrow> string \<Rightarrow> string" where
  "face_crop_path dir filename = path_join dir (fst (splitext filename) @ ''_face.png'')"

definition json_loads :: "world \<Rightarrow> py \<Rightarrow> py result" where
  "json_loads w content = (case content of PStr s \<Rightarrow> json_parse w s | _ \<Rightarrow> Inl TypeError)"

fun py_iter :: "py \<Rightarrow> py list result" where
  "py_iter (PList xs) = Inr xs"
| "py_iter (PStr s) = Inr (map (\<lambda>c. PStr [c]) s)"
| "py_iter (PDict d) = Inr (map PStr (keys d))"
| "py_iter v = Inl TypeError"

fun map_exn :: "('a \<Rightarrow> 'b result) \<Rightarrow> 'a list \<Rightarrow> 'b list result" where
  "map_exn f [] = Inr []"
| "map_exn f (x # xs) = bind_exn (f x) (\<lambda>y. bind_exn (map_exn f xs) (\<lambda>ys. Inr (y # ys)))"

definition save_face :: "world \<Rightarrow> args \<Rightarrow> string \<Rightarrow> py \<Rightarrow> (string \<times> box) list result" where
  "save_face w a filename parsed =
     (case face_dir a of
        None \<Rightarrow> Inr []
      | Some dir \<Rightarrow>
          if dir = [] then Inr []
          else bind_exn (py_get parsed ''face_bbox'') (\<lambda>face_bbox.
            if \<not> py_truthy face_bbox then Inr []
            else bind_exn (py_len face_bbox) (\<lambda>n.
              if n \<noteq> 4 then Inr []
              else bind_exn (bind_exn (py_iter face_bbox) (map_exn py_int)) (\<lambda>ints.
                case ints of
                  [x, y, w', h] \<Rightarrow>
                    (let image_path = path_join (input_dir a) filename
                     in case image_open w image_path of
                          Some e \<Rightarrow> Inl e
                        | None \<Rightarrow>
                            (let img = Opened image_path; region = (x, y, x + w', y + h)
                             in case image_crop w img region of
                                  Some e \<Rightarrow> Inl e
                                | None \<Rightarrow>
                                    (let face_crop = Cropped img region;
                                         dst = face_crop_path dir filename
                                     in case image_save w face_crop dst of
                                          Some e \<Rightarrow> Inl e
                                        | None \<Rightarrow> Inr [(dst, region)])))
                | _ \<Rightarrow> Inl ValueError))))"

definition crop_save :: "world \<Rightarrow> string \<Rightarrow> box \<Rightarrow> string \<Rightarrow> exn option" where
  "crop_save w image_path region dst =
     (case image_open w image_path of
        Some e \<Rightarrow> Some e
      | None \<Rightarrow>
          (case image_crop w (Opened image_path) region of
             Some e \<Rightarrow> Some e
           | None \<Rightarrow> image_save w (Cropped (Opened image_path) region) dst))"

definition failure :: "world \<Rightarrow> exn \<Rightarrow> py" where
  "failure w e = PDict [(''error'', PStr (exc_str w e))]"

definition process_image_try :: "world \<Rightarrow> args \<Rightarrow> string \<Rightarrow> string \<Rightarrow> (py \<times> (string \<times> box) list) result" where
  "process_image_try w a filename image_data_uri =
     bind_exn (infer w filename (request image_data_uri)) (\<lambda>content.
       bind_exn (json_loads w content) (\<lambda>parsed0.
         bind_exn (normalize_parsed parsed0) (\<lambda>parsed.
           bind_exn (save_face w a filename parsed) (\<lambda>crops. Inr (parsed, crops)))))"

definition process_image ::
  "world \<Rightarrow> args \<Rightarrow> string \<Rightarrow> string \<Rightarrow> (string \<times> py) \<times> (string \<times> box) list" where
  "process_image w a filename image_data_uri =
     (case process_image_try w a filename image_data_uri of
        Inr (parsed, crops) \<Rightarrow> ((filename, parsed), crops)
      | Inl e \<Rightarrow> ((filename, failure w e), []))"

lemmas worker_defs =
  path_join_def rfind_def splitext_def face_crop_path_def json_loads_def save_face_def crop_save_def
  failure_def process_image_try_def process_image_def

definition ex_reply :: py where
  "ex_reply = PDict
     [(''ID_type'', PStr ''DL''), (''dl_number'', PStr ''D1234567''), (''expiry'', PStr ''2030-01-01''),
      (''name'', PStr ''JANE DOE''), (''dob'', PStr ''1990-01-01''), (''address'', PStr ''N/A''),
      (''sex'', PStr ''F''), (''height'', PStr ''5'-04\"''), (''weight'', PNone),
      (''hair'', PStr ''BRO''), (''eyes'', PStr ''BLU''), (''altered'', PBool False),
      (''face_bbox'', PList [PInt 10, PInt 10, PInt 50, PInt 50])]"

definition ex_record :: py where
  "ex_record = PDict
     [(''ID_type'', PStr ''DL''), (''dl_number'', PStr ''D1234567''), (''expiry'', PStr ''2030-01-01''),
      (''name'', PStr ''JANE DOE''), (''dob'', PStr ''1990-01-01''), (''address'', PStr ''na''),
      (''sex'', PStr ''F''), (''height'', PStr ''5'-04''), (''weight'', PStr ''na''),
      (''hair'', PStr ''BRO''), (''eyes'', PStr ''BLU''), (''altered'', PBool False),
      (''face_bbox'', PList [PInt 10, PInt 10, PInt 50, PInt 50])]"

definition ex_world :: world where
  "ex_world =
     \<lparr>llm_init = (\<lambda>m. None),
      infer = (\<lambda>f u. if f = ''a.png'' then Inr (PStr ''{...}'') else Inl (Raised ''503'')),
      json_parse = (\<lambda>s. if s = ''{...}'' then Inr ex_reply else Inl (Raised ''Expecting value'')),
      image_open = (\<lambda>p. None), image_crop = (\<lambda>i b. None), image_save = (\<lambda>i d. None),
      exc_str = (\<lambda>e. case e of Raised m \<Rightarrow> m | _ \<Rightarrow> ''error'')\<rparr>"

definition ex_args :: args where
  "ex_args =
     \<lparr>input_dir = ''in'', output_path = ''identity_outputs.json'', max_workers = 2,
      output_format = ''json'', model = ''qwen2p5-vl-32b-instruct'', face_dir = Some ''faces''\<rparr>"

definition ex_world_crop_fails :: world where
  "ex_world_crop_fails = ex_world\<lparr>image_save := (\<lambda>i d. Some (Raised ''cannot write file''))\<rparr>"

section \<open>Paths\<close>

lemma splitext_concat: "fst (splitext p) @ snd (splitext p) = p"
  by (simp add: splitext_def Let_def)

lemma path_join_inject:
  assumes "path_join a x = path_join a y"
    and "x = [] \<or> hd x \<noteq> CHR ''/''" and "y = [] \<or> hd y \<noteq> CHR ''/''"
  shows "x = y"
  using assms by (auto simp: path_join_def split: if_splits)

lemma hd_stem: "CHR ''/'' \<notin> set f \<Longrightarrow> fst (splitext f) @ ''_face.png'' \<noteq> [] \<and>
    hd (fst (splitext f) @ ''_face.png'') \<noteq> CHR ''/''"
proof -
  assume a: "CHR ''/'' \<notin> set f"
  have "set (fst (splitext f)) \<subseteq> set f"
    by (auto simp: splitext_def Let_def dest: in_set_takeD)
  with a have "CHR ''/'' \<notin> set (fst (splitext f))" by blast
  then show ?thesis
    by (cases "fst (splitext f)") auto
qed

lemma face_crop_path_inject:
  assumes "face_crop_path dir f = face_crop_path dir g"
    and "CHR ''/'' \<notin> set f" and "CHR ''/'' \<notin> set g"
    and "snd (splitext f) = snd (splitext g)"
  shows "f = g"
proof -
  have "fst (splitext f) @ ''_face.png'' = fst (splitext g) @ ''_face.png''"
  proof (rule path_join_inject [of dir])
    show "path_join dir (fst (splitext f) @ ''_face.png'') = path_join dir (fst (splitext g) @ ''_face.png'')"
      using assms(1) by (simp add: face_crop_path_def)
    show "fst (splitext f) @ ''_face.png'' = [] \<or> hd (fst (splitext f) @ ''_face.png'') \<noteq> CHR ''/''"
      using hd_stem [OF assms(2)] by blast
    show "fst (splitext g) @ ''_face.png'' = [] \<or> hd (fst (splitext g) @ ''_face.png'') \<noteq> CHR ''/''"
      using hd_stem [OF assms(3)] by blast
  qed
  then have "fst (splitext f) = fst (splitext g)" by simp
  with assms(4) have "fst (splitext f) @ snd (splitext f) = fst (splitext g) @ snd (splitext g)"
    by simp
  then show ?thesis
    by (simp only: splitext_concat)
qed

lemma takeWhile_neq_less: "c \<in> set s \<Longrightarrow> length (takeWhile (\<lambda>x. x \<noteq> c) s) < length s"
  by (induction s) auto

lemma rfind_bounds: "- 1 \<le> rfind c s \<and> rfind c s < int (length s)"
  using takeWhile_neq_less [of c "rev s"] by (auto simp: rfind_def)

lemma rfind_append_absent: "c \<notin> set t \<Longrightarrow> rfind c (s @ t) = rfind c s"
proof -
  assume a: "c \<notin> set t"
  then have "takeWhile (\<lambda>x. x \<noteq> c) (rev t @ rev s) = rev t @ takeWhile (\<lambda>x. x \<noteq> c) (rev s)"
    by (intro takeWhile_append2) auto
  with a show ?thesis
    by (simp add: rfind_def)
qed

lemma rfind_snoc: "rfind c (s @ [c]) = int (length s)"
  by (simp add: rfind_def)

lemma rfind_ext:
  "CHR ''.'' \<notin> set e \<Longrightarrow> rfind (CHR ''.'') (stem @ CHR ''.'' # e) = int (length stem)"
  "CHR ''/'' \<notin> set e \<Longrightarrow> rfind (CHR ''/'') (stem @ CHR ''.'' # e) = rfind (CHR ''/'') stem"
  using rfind_append_absent [of "CHR ''.''" e "stem @ [CHR ''.'']"]
    rfind_append_absent [of "CHR ''/''" "CHR ''.'' # e" stem]
  by (simp_all add: rfind_snoc)

lemma splitext_append_ext:
  assumes "CHR ''.'' \<notin> set e" and "CHR ''/'' \<notin> set e"
  shows "splitext (stem @ CHR ''.'' # e) =
    (if list_ex (\<lambda>x. x \<noteq> CHR ''.'') (drop (nat (rfind (CHR ''/'') stem + 1)) stem)
     then (stem, CHR ''.'' # e) else (stem @ CHR ''.'' # e, []))"
proof -
  have "rfind (CHR ''/'') stem < int (length stem)"
    using rfind_bounds by blast
  with assms show ?thesis
    by (simp add: splitext_def rfind_ext list_ex_iff)
qed

lemma splitext_no_dot: "CHR ''.'' \<notin> set p \<Longrightarrow> splitext p = (p, [])"
  using rfind_bounds [of "CHR ''/''" p] by (simp add: splitext_def rfind_def)

section \<open>Iteration and conversion\<close>

lemma map_exn_Inr_length: "map_exn f xs = Inr ys \<Longrightarrow> length ys = length xs"
  by (induction xs arbitrary: ys) (auto simp: bind_exn_eq_Inr)

lemma map_exn_Inr_iff: "map_exn f xs = Inr ys \<longleftrightarrow> list_all2 (\<lambda>x y. f x = Inr y) xs ys"
proof (induction xs arbitrary: ys)
  case Nil
  then show ?case by auto
next
  case (Cons x xs)
  then show ?case by (cases ys) (auto simp: bind_exn_eq_Inr)
qed

lemma map_exn_total: "(\<And>x. x \<in> set xs \<Longrightarrow> f x = Inr (g x)) \<Longrightarrow> map_exn f xs = Inr (map g xs)"
  by (induction xs) simp_all

lemma map_exn_first_error:
  "(\<And>x. x \<in> set pre \<Longrightarrow> \<not> raises (f x)) \<Longrightarrow> f x = Inl e \<Longrightarrow>
   map_exn f (pre @ x # post) = Inl e"
proof (induction pre)
  case Nil
  then show ?case by simp
next
  case (Cons p pre)
  then obtain y where "f p = Inr y"
    using not_raises_iff [of "f p"] by auto
  with Cons show ?case by simp
qed

lemma map_exn_ints [simp]: "map_exn py_int (map PInt is) = Inr is"
  by (induction "is") auto

lemma py_iter_length: "py_iter v = Inr xs \<Longrightarrow> py_len v = Inr (length xs)"
  by (cases v) auto

section \<open>The face crop\<close>

text \<open>Opening, cropping and saving seen as one call, \<open>crop_save\<close>.\<close>

lemma save_face_eq:
  "save_face w a filename parsed =
     (case face_dir a of
        None \<Rightarrow> Inr []
      | Some dir \<Rightarrow>
          if dir = [] then Inr []
          else bind_exn (py_get parsed ''face_bbox'') (\<lambda>face_bbox.
            if \<not> py_truthy face_bbox then Inr []
            else bind_exn (py_len face_bbox) (\<lambda>n.
              if n \<noteq> 4 then Inr []
              else bind_exn (bind_exn (py_iter face_bbox) (map_exn py_int)) (\<lambda>ints.
                case ints of
                  [x, y, w', h] \<Rightarrow>
                    (case crop_save w (path_join (input_dir a) filename) (x, y, x + w', y + h)
                            (face_crop_path dir filename) of
                       Some e \<Rightarrow> Inl e
                     | None \<Rightarrow> Inr [(face_crop_path dir filename, (x, y, x + w', y + h))])
                | _ \<Rightarrow> Inl ValueError))))"
proof -
  have step: "(let image_path = path_join (input_dir a) filename
      in case image_open w image_path of
           Some e \<Rightarrow> Inl e
         | None \<Rightarrow>
             (let img = Opened image_path; region = (x, y, x + w', y + h)
              in case image_crop w img region of
                   Some e \<Rightarrow> Inl e
                 | None \<Rightarrow>
                     (let face_crop = Cropped img region; dst = face_crop_path dir filename
                      in case image_save w face_crop dst of
                           Some e \<Rightarrow> Inl e
                         | None \<Rightarrow> Inr [(dst, region)]))) =
     (case crop_save w (path_join (input_dir a) filename) (x, y, x + w', y + h)
             (face_crop_path dir filename) of
        Some e \<Rightarrow> Inl e
      | None \<Rightarrow> Inr [(face_crop_path dir filename, (x, y, x + w', y + h))])"
    for x y w' h dir
    by (simp add: crop_save_def Let_def split: option.splits)
  show ?thesis
    unfolding save_face_def step by (rule refl)
qed

lemma crop_save_infer [simp]: "crop_save (w\<lparr>infer := g\<rparr>) = crop_save w"
  by (intro ext) (simp add: crop_save_def split: option.splits)


lemma save_face_disabled:
  "face_dir a = None \<or> face_dir a = Some [] \<Longrightarrow> save_face w a f parsed = Inr []"
  by (auto simp: save_face_eq)

lemma save_face_not_dict:
  "face_dir a = Some dir \<Longrightarrow> dir \<noteq> [] \<Longrightarrow> \<not> is_dict parsed \<Longrightarrow>
   save_face w a f parsed = Inl AttributeError"
  by (cases parsed) (simp_all add: save_face_eq is_dict_def)

lemma save_face_ints:
  assumes "face_dir a = Some dir" "dir \<noteq> []"
    and "map_of d ''face_bbox'' = Some (PList [PInt x, PInt y, PInt w', PInt h])"
  shows "save_face w a f (PDict d) =
    (case crop_save w (path_join (input_dir a) f) (x, y, x + w', y + h) (face_crop_path dir f) of
       Some e \<Rightarrow> Inl e
     | None \<Rightarrow> Inr [(face_crop_path dir f, (x, y, x + w', y + h))])"
  using assms by (simp add: save_face_eq Let_def)

lemma save_face_skip:
  assumes "map_of d ''face_bbox'' = None \<or> map_of d ''face_bbox'' = Some v \<and>
           (\<not> py_truthy v \<or> (\<exists>n. py_len v = Inr n \<and> n \<noteq> 4))"
  shows "save_face w a f (PDict d) = Inr []"
  using assms by (auto simp: save_face_eq split: option.splits)

section \<open>The worker\<close>

lemma process_image_filename [simp]: "fst (fst (process_image w a f u)) = f"
  by (simp add: process_image_def split: sum.splits prod.splits)

lemma process_image_try_Inr_iff:
  "process_image_try w a f u = Inr (r, cs) \<longleftrightarrow>
     (\<exists>c p0. infer w f (request u) = Inr c \<and> json_loads w c = Inr p0 \<and> normalize_parsed p0 = Inr r \<and>
        save_face w a f r = Inr cs)"
  by (auto simp: process_image_try_def bind_exn_eq_Inr)

lemma process_image_try_Inl_iff:
  "process_image_try w a f u = Inl e \<longleftrightarrow>
     infer w f (request u) = Inl e \<or>
     (\<exists>c. infer w f (request u) = Inr c \<and>
        (json_loads w c = Inl e \<or>
         (\<exists>p0. json_loads w c = Inr p0 \<and>
            (normalize_parsed p0 = Inl e \<or>
             (\<exists>p. normalize_parsed p0 = Inr p \<and> save_face w a f p = Inl e)))))"
  by (auto simp: process_image_try_def bind_exn_eq_Inl bind_exn_eq_Inr)

lemma process_image_world_cong:
  assumes "infer w' f (request u) = infer w f (request u)" and "json_parse w' = json_parse w"
    and "crop_save w' = crop_save w" and "exc_str w' = exc_str w"
  shows "process_image w' a f u = process_image w a f u"
proof -
  have j: "json_loads w' = json_loads w"
    by (rule ext) (unfold json_loads_def assms(2), rule refl)
  have s: "save_face w' = save_face w"
    by (intro ext) (unfold save_face_eq assms(3), rule refl)
  have e: "failure w' = failure w"
    by (rule ext) (unfold failure_def assms(4), rule refl)
  show ?thesis
    unfolding process_image_def process_image_try_def j s e assms(1) by (rule refl)
qed

lemma process_image_cases_aux:
  "(\<exists>e. process_image w a f u = ((f, failure w e), []) \<and> process_image_try w a f u = Inl e) \<or>
   (\<exists>r cs. process_image w a f u = ((f, r), cs) \<and> process_image_try w a f u = Inr (r, cs))"
  by (cases "process_image_try w a f u") (auto simp: process_image_def)

lemma ex_normalize: "normalize_parsed ex_reply = Inr ex_record"
  by (simp add: ex_reply_def ex_record_def normalizer_defs py_defs)

lemma ex_save_face:
  "save_face ex_world ex_args ''a.png'' ex_record = Inr [(''faces/a_face.png'', (10, 10, 60, 60))]"
  by (simp add: ex_record_def ex_world_def ex_args_def worker_defs Let_def)

lemma ex_process_a:
  "process_image ex_world ex_args ''a.png'' u =
     ((''a.png'', ex_record), [(''faces/a_face.png'', (10, 10, 60, 60))])"
proof -
  have "process_image_try ex_world ex_args ''a.png'' u =
      Inr (ex_record, [(''faces/a_face.png'', (10, 10, 60, 60))])"
    unfolding process_image_try_Inr_iff
    using ex_normalize ex_save_face by (simp add: ex_world_def json_loads_def)
  then show ?thesis by (simp add: process_image_def)
qed

lemma ex_process_b:
  "process_image ex_world ex_args ''b.jpg'' u = ((''b.jpg'', PDict [(''error'', PStr ''503'')]), [])"
  by (simp add: process_image_def process_image_try_def ex_world_def failure_def)

lemma save_face_iterable:
  assumes "face_dir a = Some dir" "dir \<noteq> []" "map_of d ''face_bbox'' = Some v"
    and "py_truthy v" "py_len v = Inr 4" "py_iter v = Inr xs" "map_exn py_int xs = Inr [x, y, w', h]"
  shows "save_face w a f (PDict d) =
    (case crop_save w (path_join (input_dir a) f) (x, y, x + w', y + h) (face_crop_path dir f) of
       Some e \<Rightarrow> Inl e
     | None \<Rightarrow> Inr [(face_crop_path dir f, (x, y, x + w', y + h))])"
  using assms by (simp add: save_face_eq Let_def)

lemma process_image_no_face_dir:
  assumes "face_dir a = None \<or> face_dir a = Some []"
  shows "process_image w a f u =
    ((f, case bind_exn (infer w f (request u)) (\<lambda>c. bind_exn (json_loads w c) normalize_parsed) of
           Inl e \<Rightarrow> failure w e | Inr r \<Rightarrow> r), [])"
proof -
  have "process_image_try w a f u =
      bind_exn (bind_exn (infer w f (request u)) (\<lambda>c. bind_exn (json_loads w c) normalize_parsed)) (\<lambda>r. Inr (r, []))"
    by (simp add: process_image_try_def save_face_disabled [OF assms] bind_exn_assoc)
  then show ?thesis
    by (cases "bind_exn (infer w f (request u)) (\<lambda>c. bind_exn (json_loads w c) normalize_parsed)")
       (simp_all add: process_image_def)
qed

section \<open>Properties\<close>

text \<open>C2: \<^verbatim>\<open>process_image\<close> never raises and returns exactly one of two things under
  the item's own file name: the failure record of the first exception raised by the
  inference call, by \<^verbatim>\<open>json.loads\<close>, by the normalization or by the face crop, with no
  crop written; or the normalized reply together with the crops that were written.\<close>

theorem process_image_outcome:
  "(\<exists>e. process_image w a f u = ((f, failure w e), []) \<and>
      (infer w f (request u) = Inl e \<or>
       (\<exists>c. infer w f (request u) = Inr c \<and>
          (json_loads w c = Inl e \<or>
           (\<exists>p0. json_loads w c = Inr p0 \<and>
              (normalize_parsed p0 = Inl e \<or>
               (\<exists>p. normalize_parsed p0 = Inr p \<and> save_face w a f p = Inl e))))))) \<or>
   (\<exists>c p0 r cs. process_image w a f u = ((f, r), cs) \<and> infer w f (request u) = Inr c \<and>
      json_loads w c = Inr p0 \<and> normalize_parsed p0 = Inr r \<and> save_face w a f r = Inr cs)"
  using process_image_cases_aux [of w a f u]
  unfolding process_image_try_Inl_iff process_image_try_Inr_iff by blast

text \<open>C12: A failure of the face crop turns the whole item into a failure record: when
  the inference, the parse and the normalization succeed and the imaging library
  raises while cropping, \<^verbatim>\<open>process_image\<close> returns \<^verbatim>\<open>{"error": ...}\<close> and discards the
  extracted record.\<close>

theorem crop_failure_fails_item:
  assumes "infer w f (request u) = Inr c" and "json_loads w c = Inr p0"
    and "normalize_parsed p0 = Inr (PDict d)"
    and "face_dir a = Some dir" and "dir \<noteq> []"
    and "map_of d ''face_bbox'' = Some (PList [PInt x, PInt y, PInt w', PInt h])"
    and "crop_save w (path_join (input_dir a) f) (x, y, x + w', y + h) (face_crop_path dir f) = Some e"
  shows "process_image w a f u = ((f, failure w e), [])"
proof -
  have "save_face w a f (PDict d) = Inl e"
    using assms(4-7) by (simp add: save_face_ints)
  with assms(1-3) have "process_image_try w a f u = Inl e"
    unfolding process_image_try_Inl_iff by blast
  then show ?thesis by (simp add: process_image_def)
qed

theorem crop_failure_fails_item_witness:
  "process_image ex_world_crop_fails ex_args ''a.png'' ''data:image/png;base64,AA=='' =
     ((''a.png'', PDict [(''error'', PStr ''cannot write file'')]), [])"
proof -
  have "process_image ex_world_crop_fails ex_args ''a.png'' ''data:image/png;base64,AA=='' =
      ((''a.png'', failure ex_world_crop_fails (Raised ''cannot write file'')), [])"
  proof (rule crop_failure_fails_item)
    show "infer ex_world_crop_fails ''a.png'' (request ''data:image/png;base64,AA=='') = Inr (PStr ''{...}'')"
      by (simp add: ex_world_crop_fails_def ex_world_def)
    show "json_loads ex_world_crop_fails (PStr ''{...}'') = Inr ex_reply"
      by (simp add: ex_world_crop_fails_def ex_world_def json_loads_def)
    show "normalize_parsed ex_reply = Inr (PDict
       [(''ID_type'', PStr ''DL''), (''dl_number'', PStr ''D1234567''), (''expiry'', PStr ''2030-01-01''),
        (''name'', PStr ''JANE DOE''), (''dob'', PStr ''1990-01-01''), (''address'', PStr ''na''),
        (''sex'', PStr ''F''), (''height'', PStr ''5'-04''), (''weight'', PStr ''na''),
        (''hair'', PStr ''BRO''), (''eyes'', PStr ''BLU''), (''altered'', PBool False),
        (''face_bbox'', PList [PInt 10, PInt 10, PInt 50, PInt 50])])"
      using ex_normalize by (simp add: ex_record_def)
    show "face_dir ex_args = Some ''faces''" "''faces'' \<noteq> []"
      by (simp_all add: ex_args_def)
    show "map_of
       [(''ID_type'', PStr ''DL''), (''dl_number'', PStr ''D1234567''), (''expiry'', PStr ''2030-01-01''),
        (''name'', PStr ''JANE DOE''), (''dob'', PStr ''1990-01-01''), (''address'', PStr ''na''),
        (''sex'', PStr ''F''), (''height'', PStr ''5'-04''), (''weight'', PStr ''na''),
        (''hair'', PStr ''BRO''), (''eyes'', PStr ''BLU''), (''altered'', PBool False),
        (''face_bbox'', PList [PInt 10, PInt 10, PInt 50, PInt 50])] ''face_bbox''
      = Some (PList [PInt 10, PInt 10, PInt 50, PInt 50])"
      by simp
    show "crop_save ex_world_crop_fails (path_join (input_dir ex_args) ''a.png'') (10, 10, 10 + 50, 10 + 50)
        (face_crop_path ''faces'' ''a.png'') = Some (Raised ''cannot write file'')"
      by (simp add: crop_save_def ex_world_crop_fails_def ex_world_def)
  qed
  then show ?thesis
    by (simp add: failure_def ex_world_crop_fails_def ex_world_def)
qed

text \<open>C17: The crop region: for a \<^verbatim>\<open>face_bbox\<close> that is true, has length 4 and whose four
  items convert with \<^verbatim>\<open>int\<close> to \<open>x, y, w, h\<close>, the worker asks the imaging library for
  the box \<open>(x, y, x + w, y + h)\<close> of the file \<^verbatim>\<open>input_dir/filename\<close> and, if that
  succeeds, records one write to the face path of the file.  The items may come from
  a list, from a dictionary's keys or from the characters of a string.\<close>

theorem save_face_region:
  assumes "face_dir a = Some dir" and "dir \<noteq> []" and "map_of d ''face_bbox'' = Some v"
    and "py_truthy v" and "py_len v = Inr 4" and "py_iter v = Inr xs"
    and "map_exn py_int xs = Inr [x, y, w', h]"
    and "crop_save w (path_join (input_dir a) f) (x, y, x + w', y + h) (face_crop_path dir f) = None"
  shows "save_face w a f (PDict d) = Inr [(face_crop_path dir f, (x, y, x + w', y + h))]"
  using assms by (simp add: save_face_iterable)

theorem save_face_region_witness:
  "save_face ex_world ex_args ''a.png'' (PDict [(''face_bbox'', PStr ''1357'')]) =
     Inr [(''faces/a_face.png'', (1, 3, 6, 10))]"
proof -
  have "save_face ex_world ex_args ''a.png'' (PDict [(''face_bbox'', PStr ''1357'')]) =
     Inr [(face_crop_path ''faces'' ''a.png'', (1, 3, 1 + 5, 3 + 7))]"
  proof (rule save_face_region)
    show "face_dir ex_args = Some ''faces''" "''faces'' \<noteq> []"
      by (simp_all add: ex_args_def)
    show "map_of [(''face_bbox'', PStr ''1357'')] ''face_bbox'' = Some (PStr ''1357'')"
      by simp
    show "py_truthy (PStr ''1357'')" "py_len (PStr ''1357'') = Inr 4"
      by simp_all
    show "py_iter (PStr ''1357'') = Inr [PStr ''1'', PStr ''3'', PStr ''5'', PStr ''7'']"
      by simp
    show "map_exn py_int [PStr ''1'', PStr ''3'', PStr ''5'', PStr ''7''] = Inr [1, 3, 5, 7]"
      by (simp add: py_defs)
    show "crop_save ex_world (path_join (input_dir ex_args) ''a.png'') (1, 3, 1 + 5, 3 + 7)
        (face_crop_path ''faces'' ''a.png'') = None"
      by (simp add: crop_save_def ex_world_def)
  qed
  then show ?thesis
    by (simp add: worker_defs)
qed

text \<open>C20: Two different input files can be given the same face path: the path is
  made from the file name without its extension, so two names with the same root (one
  whose last component has a character other than a dot) and different extensions,
  such as \<^verbatim>\<open>a.png\<close> and \<^verbatim>\<open>a.jpg\<close>, both write \<^verbatim>\<open>a_face.png\<close> and one crop
  overwrites the other.\<close>

theorem face_crop_path_collision:
  assumes "e1 \<noteq> e2"
    and "CHR ''.'' \<notin> set e1 \<union> set e2" and "CHR ''/'' \<notin> set e1 \<union> set e2"
    and "list_ex (\<lambda>x. x \<noteq> CHR ''.'') (drop (nat (rfind (CHR ''/'') stem + 1)) stem)"
  shows "stem @ CHR ''.'' # e1 \<noteq> stem @ CHR ''.'' # e2 \<and>
    face_crop_path dir (stem @ CHR ''.'' # e1) = path_join dir (stem @ ''_face.png'') \<and>
    face_crop_path dir (stem @ CHR ''.'' # e2) = path_join dir (stem @ ''_face.png'')"
  using assms by (simp add: face_crop_path_def splitext_append_ext)

theorem face_crop_path_collision_witness:
  "''a.png'' \<noteq> ''a.jpg'' \<and> face_crop_path ''faces'' ''a.png'' = ''faces/a_face.png'' \<and>
   face_crop_path ''faces'' ''a.jpg'' = ''faces/a_face.png''"
proof -
  have "list_ex (\<lambda>x. x \<noteq> CHR ''.'') (drop (nat (rfind (CHR ''/'') ''a'' + 1)) ''a'')"
    by (simp add: rfind_def)
  from face_crop_path_collision [of "''png''" "''jpg''" "''a''" "''faces''", OF _ _ _ this]
  show ?thesis
    by (simp add: path_join_def)
qed

text \<open>C37: Face paths do not collide among files with the same extension: two
  different file names without a directory separator and with equal extensions have
  different face paths.\<close>

theorem face_crop_path_inj:
  assumes "f \<noteq> g" and "CHR ''/'' \<notin> set f" and "CHR ''/'' \<notin> set g"
    and "snd (splitext f) = snd (splitext g)"
  shows "face_crop_path dir f \<noteq> face_crop_path dir g"
  using assms face_crop_path_inject by blast

theorem face_crop_path_inj_witness:
  "''a.png'' \<noteq> ''b.png'' \<and> CHR ''/'' \<notin> set ''a.png'' \<and> CHR ''/'' \<notin> set ''b.png'' \<and>
   snd (splitext ''a.png'') = snd (splitext ''b.png'') \<and>
   face_crop_path ''faces'' ''a.png'' \<noteq> face_crop_path ''faces'' ''b.png''"
proof -
  have a: "''a.png'' \<noteq> ''b.png''" by simp
  have b: "CHR ''/'' \<notin> set ''a.png''" "CHR ''/'' \<notin> set ''b.png''" by simp_all
  have c: "snd (splitext ''a.png'') = snd (splitext ''b.png'')" by (simp add: worker_defs)
  show ?thesis
    using a b c face_crop_path_inj [OF a b c, of "''faces''"] by simp
qed

text \<open>C39: \<^verbatim>\<open>os.path.splitext\<close> splits at the last dot of the last path component:
  for an extension without a dot or a separator, the path \<^verbatim>\<open>stem.ext\<close> splits into the
  stem and the dotted extension when the last component of the stem has a character
  other than a dot, and is left whole, with an empty extension, when it has not
  (a leading dot does not start an extension).\<close>

theorem splitext_extension:
  assumes "CHR ''.'' \<notin> set e" and "CHR ''/'' \<notin> set e"
  shows "splitext (stem @ CHR ''.'' # e) =
    (if list_ex (\<lambda>x. x \<noteq> CHR ''.'') (drop (nat (rfind (CHR ''/'') stem + 1)) stem)
     then (stem, CHR ''.'' # e) else (stem @ CHR ''.'' # e, []))"
  using assms by (rule splitext_append_ext)

theorem splitext_extension_witness:
  "splitext ''in.d/a.b.png'' = (''in.d/a.b'', ''.png'') \<and> splitext ''in.d/.png'' = (''in.d/.png'', [])"
  using splitext_extension [of "''png''" "''in.d/a.b''"] splitext_extension [of "''png''" "''in.d/''"]
  by (simp add: rfind_def)

text \<open>C38: Without a face directory (the option absent or empty) the worker never
  consults the imaging library and writes no crop; its result is the normalized reply
  of whatever kind, or the failure record of the first exception of the inference,
  the parse or the normalization.\<close>

theorem process_image_without_face_dir:
  assumes "face_dir a = None \<or> face_dir a = Some []"
  shows "process_image w a f u =
    ((f, case bind_exn (infer w f (request u)) (\<lambda>c. bind_exn (json_loads w c) normalize_parsed) of
           Inl e \<Rightarrow> failure w e | Inr r \<Rightarrow> r), [])"
  using assms by (rule process_image_no_face_dir)

theorem process_image_without_face_dir_witness:
  "process_image ex_world (ex_args\<lparr>face_dir := None\<rparr>) ''a.png'' ''data:image/png;base64,AA=='' =
     ((''a.png'', ex_record), [])"
proof -
  have "face_dir (ex_args\<lparr>face_dir := None\<rparr>) = None \<or> face_dir (ex_args\<lparr>face_dir := None\<rparr>) = Some []"
    by simp
  from process_image_without_face_dir [OF this, of ex_world "''a.png''" "''data:image/png;base64,AA==''"]
  show ?thesis
    using ex_normalize by (simp add: ex_world_def json_loads_def)
qed

end
