(* ===== verification/Scheduler.thy ===== *)
theory Scheduler
  imports Worker
begin

text \<open>
  The Batch Scheduler: the thread pool and the \<^verbatim>\<open>as_completed\<close> loop of \<^verbatim>\<open>main\<close>
  (\<^verbatim>\<open>src/fai.py\<close> lines 92 and 111-118).  The state \<open>pool\<close> holds the tasks the
  dictionary comprehension has not submitted yet, the executor's work queue, the
  tasks that worker threads are running, the completed futures that \<^verbatim>\<open>as_completed\<close>
  has not yielded yet, the dictionary \<^verbatim>\<open>output_data\<close> and the crop files written.
  \<open>pool_step\<close> is the step function over the four events: \<open>Submit\<close> (line 113),
  \<open>Start\<close> (an idle thread takes the head of the queue; at most \<^verbatim>\<open>max_workers\<close> run),
  \<open>Finish i\<close> (the \<open>i\<close>-th running task returns), \<open>Collect i\<close> (the loop of lines
  116-118 receives the \<open>i\<close>-th completed future, only once the comprehension has
  submitted everything).  The source only calls the executor: that a queued task
  starts when fewer than \<^verbatim>\<open>max_workers\<close> run, that a running task may return at any
  time and that \<^verbatim>\<open>as_completed\<close> yields each completed future once are the documented
  behaviour of \<^verbatim>\<open>concurrent.futures\<close>, taken as the model of the library.  The
  executions are all sequences of events (\<open>run_events\<close>), \<open>collected\<close> observes the
  results the loop receives along one, the reachable states are defined inductively.  \<open>batch_step\<close> is
  the abstract batch the pool refines, \<open>sequential_results\<close> the sequential reference.
\<close>

section \<open>Definitions\<close>

type_synonym task = "string \<times> string"

record pool =
  unsubmitted :: "task list"
  queue :: "task list"
  running :: "task list"
  finished :: "(string \<times> py) list"
  output_data :: "py dict"
  crops :: "(string \<times> box) list"

datatype event = Submit | Start | Finish nat | Collect nat

definition init_pool :: "task list \<Rightarrow> pool" where
  "init_pool tasks =
     \<lparr>unsubmitted = tasks, queue = [], running = [], finished = [], output_data = [], crops = []\<rparr>"

definition final :: "pool \<Rightarrow> bool" where
  "final s \<longleftrightarrow> unsubmitted s = [] \<and> queue s = [] \<and> running s = [] \<and> finished s = []"

definition remove_nth :: "nat \<Rightarrow> 'a list \<Rightarrow> 'a list" where
  "remove_nth i xs = take i xs @ drop (Suc i) xs"

definition result_of :: "world \<Rightarrow> args \<Rightarrow> task \<Rightarrow> string \<times> py" where
  "result_of w a t = fst (process_image w a (fst t) (snd t))"

definition crops_of :: "world \<Rightarrow> args \<Rightarrow> task \<Rightarrow> (string \<times> box) list" where
  "crops_of w a t = snd (process_image w a (fst t) (snd t))"

fun pool_step :: "world \<Rightarrow> args \<Rightarrow> event \<Rightarrow> pool \<Rightarrow> pool option" where
  "pool_step w a Submit s =
     (case unsubmitted s of
        [] \<Rightarrow> None
      | t # ts \<Rightarrow> Some (s\<lparr>unsubmitted := ts, queue := queue s @ [t]\<rparr>))"
| "pool_step w a Start s =
     (case queue s of
        [] \<Rightarrow> None
      | t # q \<Rightarrow>
          if int (length (running s)) < max_workers a
          then Some (s\<lparr>queue := q, running := running s @ [t]\<rparr>)
          else None)"
| "pool_step w a (Finish i) s =
     (if i < length (running s)
      then Some (s\<lparr>running := remove_nth i (running s),
                    finished := finished s @ [result_of w a (running s ! i)],
                    crops := crops s @ crops_of w a (running s ! i)\<rparr>)
      else None)"
| "pool_step w a (Collect i) s =
     (if unsubmitted s = [] \<and> i < length (finished s)
      then Some (s\<lparr>finished := remove_nth i (finished s),
                    output_data := AList.update (fst (finished s ! i)) (snd (finished s ! i))
                                     (output_data s)\<rparr>)
      else None)"

fun run_events :: "world \<Rightarrow> args \<Rightarrow> event list \<Rightarrow> pool \<Rightarrow> pool option" where
  "run_events w a [] s = Some s"
| "run_events w a (ev # evs) s =
     (case pool_step w a ev s of None \<Rightarrow> None | Some s' \<Rightarrow> run_events w a evs s')"

fun collected :: "world \<Rightarrow> args \<Rightarrow> event list \<Rightarrow> pool \<Rightarrow> (string \<times> py) list" where
  "collected w a [] s = []"
| "collected w a (ev # evs) s =
     (case pool_step w a ev s of
        None \<Rightarrow> []
      | Some s' \<Rightarrow>
          (case ev of Collect i \<Rightarrow> [finished s ! i] | _ \<Rightarrow> []) @ collected w a evs s')"

inductive reachable :: "world \<Rightarrow> args \<Rightarrow> task list \<Rightarrow> pool \<Rightarrow> bool" for w a tasks where
  init: "reachable w a tasks (init_pool tasks)"
| step: "reachable w a tasks s \<Longrightarrow> pool_step w a ev s = Some s' \<Longrightarrow> reachable w a tasks s'"

definition fifo_schedule :: "nat \<Rightarrow> event list" where
  "fifo_schedule n = replicate n Submit @ concat (replicate n [Start, Finish 0, Collect 0])"

definition sequential_results :: "world \<Rightarrow> args \<Rightarrow> task list \<Rightarrow> (string \<times> py) list" where
  "sequential_results w a tasks = map (result_of w a) tasks"

definition collect_all :: "(string \<times> py) list \<Rightarrow> py dict \<Rightarrow> py dict" where
  "collect_all rs d = foldl (\<lambda>d p. AList.update (fst p) (snd p) d) d rs"

definition batch_step :: "world \<Rightarrow> args \<Rightarrow> task list \<Rightarrow> (string \<rightharpoonup> py) \<Rightarrow> (string \<rightharpoonup> py) \<Rightarrow> bool" where
  "batch_step w a tasks m m' \<longleftrightarrow>
     m' = m \<or> (\<exists>t\<in>set tasks. m (fst t) = None \<and> m' = m(fst t \<mapsto> snd (result_of w a t)))"

definition ex_tasks :: "task list" where
  "ex_tasks = [(''a.png'', ''data:image/png;base64,AA==''), (''b.jpg'', ''data:image/png;base64,AQ=='')]"

definition measure_pool :: "pool \<Rightarrow> nat" where
  "measure_pool s =
     4 * length (unsubmitted s) + 3 * length (queue s) + 2 * length (running s) + length (finished s)"

definition pool_inv :: "world \<Rightarrow> args \<Rightarrow> task list \<Rightarrow> pool \<Rightarrow> bool" where
  "pool_inv w a tasks s \<longleftrightarrow>
     mset (map (result_of w a) (unsubmitted s @ queue s @ running s)) + mset (finished s)
       + mset (output_data s) = mset (map (result_of w a) tasks)"

lemmas scheduler_defs [sched_defs] =
  init_pool_def final_def remove_nth_def result_of_def crops_of_def fifo_schedule_def
  sequential_results_def measure_pool_def pool_inv_def collect_all_def batch_step_def

fun_cases pool_step_SubmitE: "pool_step w a Submit s = Some s'"

fun_cases pool_step_StartE: "pool_step w a Start s = Some s'"

fun_cases pool_step_FinishE: "pool_step w a (Finish i) s = Some s'"

fun_cases pool_step_CollectE: "pool_step w a (Collect i) s = Some s'"

definition ex_final_fifo :: pool where
  "ex_final_fifo =
     \<lparr>unsubmitted = [], queue = [], running = [], finished = [],
      output_data = [(''a.png'', ex_record), (''b.jpg'', PDict [(''error'', PStr ''503'')])],
      crops = [(''faces/a_face.png'', (10, 10, 60, 60))]\<rparr>"

definition ex_final_lifo :: pool where
  "ex_final_lifo =
     \<lparr>unsubmitted = [], queue = [], running = [], finished = [],
      output_data = [(''b.jpg'', PDict [(''error'', PStr ''503'')]), (''a.png'', ex_record)],
      crops = [(''faces/a_face.png'', (10, 10, 60, 60))]\<rparr>"

definition ex_both_running :: pool where
  "ex_both_running =
     \<lparr>unsubmitted = [], queue = [], running = ex_tasks, finished = [], output_data = [], crops = []\<rparr>"

definition ex_one_finished :: pool where
  "ex_one_finished =
     \<lparr>unsubmitted = [], queue = [(''b.jpg'', ''data:image/png;base64,AQ=='')], running = [],
      finished = [(''a.png'', ex_record)], output_data = [],
      crops = [(''faces/a_face.png'', (10, 10, 60, 60))]\<rparr>"

lemmas pool_stepE = pool_step_SubmitE pool_step_StartE pool_step_FinishE pool_step_CollectE

section \<open>Lists with one element removed\<close>

lemma length_remove_nth [simp]: "i < length xs \<Longrightarrow> length (remove_nth i xs) = length xs - 1"
  by (auto simp: remove_nth_def)

lemma mset_remove_nth: "i < length xs \<Longrightarrow> add_mset (xs ! i) (mset (remove_nth i xs)) = mset xs"
proof -
  assume i: "i < length xs"
  then have "xs = take i xs @ xs ! i # drop (Suc i) xs"
    by (rule id_take_nth_drop)
  then have "mset xs = mset (take i xs @ xs ! i # drop (Suc i) xs)"
    by simp
  then show ?thesis
    by (simp add: remove_nth_def)
qed

lemma mset_concat_remove_nth:
  "i < length xs \<Longrightarrow>
   mset (concat (map f xs)) = mset (f (xs ! i)) + mset (concat (map f (remove_nth i xs)))"
  by (induction xs arbitrary: i) (auto simp: remove_nth_def nth_Cons split: nat.splits)

lemma set_remove_nth_subset: "set (remove_nth i xs) \<subseteq> set xs"
  by (auto simp: remove_nth_def dest: in_set_takeD in_set_dropD)

lemma remove_nth_0 [simp]: "remove_nth 0 (x # xs) = xs"
  by (simp add: remove_nth_def)

section \<open>One step\<close>

lemma pool_step_cases:
  assumes "pool_step w a ev s = Some s'"
  obtains
    (Submit) t ts where "ev = Submit" "unsubmitted s = t # ts"
      "s' = s\<lparr>unsubmitted := ts, queue := queue s @ [t]\<rparr>"
  | (Start) t q where "ev = Start" "queue s = t # q" "int (length (running s)) < max_workers a"
      "s' = s\<lparr>queue := q, running := running s @ [t]\<rparr>"
  | (Finish) i where "ev = Finish i" "i < length (running s)"
      "s' = s\<lparr>running := remove_nth i (running s),
                finished := finished s @ [result_of w a (running s ! i)],
                crops := crops s @ crops_of w a (running s ! i)\<rparr>"
  | (Collect) i where "ev = Collect i" "unsubmitted s = []" "i < length (finished s)"
      "s' = s\<lparr>finished := remove_nth i (finished s),
                output_data := AList.update (fst (finished s ! i)) (snd (finished s ! i))
                                 (output_data s)\<rparr>"
  using assms by (cases ev) (auto split: list.splits if_splits)

lemma measure_pool_step: "pool_step w a ev s = Some s' \<Longrightarrow> Suc (measure_pool s') = measure_pool s"
  by (erule pool_step_cases) (auto simp: measure_pool_def)

lemma running_bounded_step:
  "pool_step w a ev s = Some s' \<Longrightarrow> int (length (running s)) \<le> max 0 (max_workers a) \<Longrightarrow>
   int (length (running s')) \<le> max 0 (max_workers a)"
  by (erule pool_step_cases) auto

section \<open>Invariants of the reachable states\<close>

lemma result_of_fst [simp]: "fst (result_of w a t) = fst t"
  by (simp add: result_of_def)

lemma keys_results [simp]: "map fst (map (result_of w a) ts) = map fst ts"
  by (induction ts) auto

lemma keys_results_comp [simp]: "map (fst \<circ> result_of w a) ts = map fst ts"
  by (induction ts) auto

lemma reachable_running_bounded:
  "reachable w a tasks s \<Longrightarrow> int (length (running s)) \<le> max 0 (max_workers a)"
  by (induction rule: reachable.induct) (auto simp: init_pool_def intro: running_bounded_step)

lemma pool_inv_init: "pool_inv w a tasks (init_pool tasks)"
  by (simp add: pool_inv_def init_pool_def)

lemma pool_inv_keys:
  assumes "pool_inv w a tasks s"
  shows "mset (map fst (unsubmitted s @ queue s @ running s)) + mset (map fst (finished s))
           + mset (keys (output_data s)) = mset (map fst tasks)"
proof -
  have "image_mset fst (mset (map (result_of w a) (unsubmitted s @ queue s @ running s))
          + mset (finished s) + mset (output_data s))
        = image_mset fst (mset (map (result_of w a) tasks))"
    using assms by (simp only: pool_inv_def)
  then have "mset (map fst (map (result_of w a) (unsubmitted s @ queue s @ running s)))
          + mset (map fst (finished s)) + mset (keys (output_data s))
        = mset (map fst (map (result_of w a) tasks))"
    by (simp only: image_mset_union mset_map)
  then show ?thesis
    by (simp only: keys_results)
qed

lemma collected_key_fresh:
  assumes "pool_inv w a tasks s" and "distinct (map fst tasks)" and "p \<in> set (finished s)"
  shows "fst p \<notin> set (keys (output_data s))"
proof
  assume "fst p \<in> set (keys (output_data s))"
  then have c1: "1 \<le> count (mset (keys (output_data s))) (fst p)"
    by (simp add: Suc_le_eq)
  have c2: "1 \<le> count (mset (map fst (finished s))) (fst p)"
    using assms(3) by (simp add: Suc_le_eq)
  have "count (mset (map fst tasks)) (fst p) =
      count (mset (map fst (unsubmitted s @ queue s @ running s))) (fst p)
      + count (mset (map fst (finished s))) (fst p) + count (mset (keys (output_data s))) (fst p)"
    by (simp only: pool_inv_keys [OF assms(1), symmetric] count_union)
  with c1 c2 have "2 \<le> count (mset (map fst tasks)) (fst p)"
    by linarith
  moreover have "count (mset (map fst tasks)) (fst p) \<le> 1"
    using assms(2) by (simp add: distinct_count_atmost_1)
  ultimately show False by simp
qed

lemma pool_inv_step:
  assumes "pool_inv w a tasks s" and "distinct (map fst tasks)" and "pool_step w a ev s = Some s'"
  shows "pool_inv w a tasks s'"
  using assms(3)
proof (cases rule: pool_step_cases)
  case (Submit t ts)
  with assms(1) show ?thesis by (simp add: pool_inv_def)
next
  case (Start t q)
  with assms(1) show ?thesis by (simp add: pool_inv_def)
next
  case (Finish i)
  then have "mset (running s) = add_mset (running s ! i) (mset (remove_nth i (running s)))"
    by (simp add: mset_remove_nth)
  then have "image_mset (result_of w a) (mset (running s)) =
      image_mset (result_of w a) (add_mset (running s ! i) (mset (remove_nth i (running s))))"
    by (rule arg_cong)
  then have "mset (map (result_of w a) (running s)) =
      add_mset (result_of w a (running s ! i)) (mset (map (result_of w a) (remove_nth i (running s))))"
    by (simp only: image_mset_add_mset mset_map)
  with assms(1) Finish show ?thesis by (simp add: pool_inv_def)
next
  case (Collect i)
  let ?p = "finished s ! i"
  from Collect have mem: "?p \<in> set (finished s)" by simp
  then have "fst ?p \<notin> set (keys (output_data s))"
    by (rule collected_key_fresh [OF assms(1,2)])
  then have upd: "AList.update (fst ?p) (snd ?p) (output_data s) = output_data s @ [?p]"
    by (simp add: keys_update_absent)
  have rm: "mset (finished s) = add_mset ?p (mset (remove_nth i (finished s)))"
    using Collect by (simp add: mset_remove_nth)
  have key: "mset (remove_nth i (finished s)) + mset (AList.update (fst ?p) (snd ?p) (output_data s))
      = mset (finished s) + mset (output_data s)"
    by (simp add: upd rm)
  show ?thesis
    using assms(1) unfolding pool_inv_def Collect(4)
    by (simp add: add.assoc key)
qed

lemma reachable_pool_inv:
  "reachable w a tasks s \<Longrightarrow> distinct (map fst tasks) \<Longrightarrow> pool_inv w a tasks s"
  by (induction rule: reachable.induct) (auto intro: pool_inv_init pool_inv_step)

lemma final_output:
  assumes "reachable w a tasks s" and "distinct (map fst tasks)" and "final s"
  shows "mset (output_data s) = mset (sequential_results w a tasks)"
  using reachable_pool_inv [OF assms(1,2)] assms(3)
  by (simp add: pool_inv_def final_def sequential_results_def)

lemma final_output_length:
  assumes "reachable w a tasks s" and "distinct (map fst tasks)" and "final s"
  shows "length (output_data s) = length tasks"
  using final_output [OF assms, THEN arg_cong, of size]
  by (simp add: sequential_results_def)

lemma final_output_keys:
  assumes "reachable w a tasks s" and "distinct (map fst tasks)" and "final s"
  shows "mset (keys (output_data s)) = mset (map fst tasks)"
  using pool_inv_keys [OF reachable_pool_inv [OF assms(1,2)]] assms(3)
  by (simp add: final_def)

lemma final_output_distinct:
  assumes "reachable w a tasks s" and "distinct (map fst tasks)" and "final s"
  shows "distinct (keys (output_data s))"
  using final_output_keys [OF assms] assms(2) by (metis mset_eq_imp_distinct_iff)

lemma final_output_map:
  assumes "reachable w a tasks s" and "distinct (map fst tasks)" and "final s"
  shows "map_of (output_data s) = map_of (sequential_results w a tasks)"
proof -
  have "set (output_data s) = set (sequential_results w a tasks)"
    using final_output [OF assms] by (rule mset_eq_setD)
  moreover have "distinct (keys (sequential_results w a tasks))"
    using assms(2) by (simp add: sequential_results_def)
  ultimately show ?thesis
    using final_output_distinct [OF assms] by (simp add: map_of_inject_set)
qed

section \<open>Runs\<close>

lemma run_events_append:
  "run_events w a (xs @ ys) s =
     (case run_events w a xs s of None \<Rightarrow> None | Some s' \<Rightarrow> run_events w a ys s')"
  by (induction xs arbitrary: s) (auto split: option.splits)

lemma run_events_reachable:
  "reachable w a tasks s \<Longrightarrow> run_events w a evs s = Some s' \<Longrightarrow> reachable w a tasks s'"
  by (induction evs arbitrary: s) (auto split: option.splits intro: reachable.step)

lemma reachable_run_events:
  "reachable w a tasks s \<Longrightarrow> \<exists>evs. run_events w a evs (init_pool tasks) = Some s"
proof (induction rule: reachable.induct)
  case init
  have "run_events w a [] (init_pool tasks) = Some (init_pool tasks)" by simp
  then show ?case by blast
next
  case (step s ev s')
  then obtain evs where "run_events w a evs (init_pool tasks) = Some s" by blast
  with step.hyps(2) have "run_events w a (evs @ [ev]) (init_pool tasks) = Some s'"
    by (simp add: run_events_append)
  then show ?case by blast
qed

lemma reachable_iff_run:
  "reachable w a tasks s \<longleftrightarrow> (\<exists>evs. run_events w a evs (init_pool tasks) = Some s)"
  using reachable_run_events run_events_reachable [OF reachable.init] by blast

lemma run_events_measure:
  "run_events w a evs s = Some s' \<Longrightarrow> measure_pool s' + length evs = measure_pool s"
proof (induction evs arbitrary: s)
  case Nil
  then show ?case by simp
next
  case (Cons ev evs)
  then obtain s1 where s1: "pool_step w a ev s = Some s1" "run_events w a evs s1 = Some s'"
    by (auto split: option.splits)
  from s1(2) have "measure_pool s' + length evs = measure_pool s1" by (rule Cons.IH)
  with measure_pool_step [OF s1(1)] show ?case by simp
qed

lemma measure_pool_zero: "measure_pool s = 0 \<longleftrightarrow> final s"
  by (auto simp: measure_pool_def final_def)

lemma measure_init [simp]: "measure_pool (init_pool tasks) = 4 * length tasks"
  by (simp add: measure_pool_def init_pool_def)

lemma pool_progress_aux:
  assumes "0 < max_workers a" and "\<not> final s"
  shows "\<exists>ev s'. pool_step w a ev s = Some s'"
proof -
  consider (u) "unsubmitted s \<noteq> []"
    | (r) "unsubmitted s = []" "running s \<noteq> []"
    | (q) "unsubmitted s = []" "running s = []" "queue s \<noteq> []"
    | (f) "unsubmitted s = []" "running s = []" "queue s = []" "finished s \<noteq> []"
    using assms(2) by (auto simp: final_def)
  then show ?thesis
  proof cases
    case u
    then have "pool_step w a Submit s \<noteq> None" by (simp split: list.splits)
    then show ?thesis by blast
  next
    case r
    then have "pool_step w a (Finish 0) s \<noteq> None" by simp
    then show ?thesis by blast
  next
    case q
    with assms(1) have "pool_step w a Start s \<noteq> None" by (simp split: list.splits)
    then show ?thesis by blast
  next
    case f
    then have "pool_step w a (Collect 0) s \<noteq> None" by simp
    then show ?thesis by blast
  qed
qed

section \<open>The order of collection\<close>

lemma collect_appends:
  assumes "pool_inv w a tasks s" and "distinct (map fst tasks)" and "i < length (finished s)"
  shows "AList.update (fst (finished s ! i)) (snd (finished s ! i)) (output_data s) =
    output_data s @ [finished s ! i]"
  using collected_key_fresh [OF assms(1,2), of "finished s ! i"] assms(3)
  by (simp add: keys_update_absent)

lemma output_step:
  assumes "pool_inv w a tasks s" and "distinct (map fst tasks)" and "pool_step w a ev s = Some s'"
  shows "output_data s' = output_data s @ (case ev of Collect i \<Rightarrow> [finished s ! i] | _ \<Rightarrow> [])"
  using assms(3) by (cases rule: pool_step_cases) (simp_all add: collect_appends [OF assms(1,2)])

lemma output_collected:
  assumes "reachable w a tasks s" and "distinct (map fst tasks)"
    and "run_events w a evs s = Some s'"
  shows "output_data s' = output_data s @ collected w a evs s"
  using assms(1,3)
proof (induction evs arbitrary: s)
  case Nil
  then show ?case by simp
next
  case (Cons ev evs)
  then obtain s1 where s1: "pool_step w a ev s = Some s1" and run: "run_events w a evs s1 = Some s'"
    by (auto split: option.splits)
  have "output_data s' = output_data s1 @ collected w a evs s1"
    using reachable.step [OF Cons.prems(1) s1] run by (rule Cons.IH)
  with output_step [OF reachable_pool_inv [OF Cons.prems(1) assms(2)] assms(2) s1] s1
  show ?case by simp
qed

section \<open>The first-in first-out schedule\<close>

lemma collect_all_simps [simp]:
  "collect_all [] d = d"
  "collect_all (p # rs) d = collect_all rs (AList.update (fst p) (snd p) d)"
  by (simp_all add: collect_all_def)

lemma collect_all_distinct: "distinct (keys (d @ rs)) \<Longrightarrow> collect_all rs d = d @ rs"
proof (induction rs arbitrary: d)
  case Nil
  then show ?case by simp
next
  case (Cons p rs)
  then have "fst p \<notin> set (keys d)" by auto
  then have "AList.update (fst p) (snd p) d = d @ [p]"
    by (simp add: keys_update_absent)
  moreover have "distinct (keys ((d @ [p]) @ rs))"
    using Cons.prems by simp
  ultimately show ?case
    using Cons.IH [of "d @ [p]"] by simp
qed

lemma run_submits:
  "unsubmitted s = ts \<Longrightarrow>
   run_events w a (replicate (length ts) Submit) s = Some (s\<lparr>unsubmitted := [], queue := queue s @ ts\<rparr>)"
proof (induction ts arbitrary: s)
  case Nil
  then show ?case by simp
next
  case (Cons t ts)
  let ?s1 = "s\<lparr>unsubmitted := ts, queue := queue s @ [t]\<rparr>"
  have "run_events w a (replicate (length ts) Submit) ?s1
      = Some (?s1\<lparr>unsubmitted := [], queue := queue ?s1 @ ts\<rparr>)"
    by (rule Cons.IH) simp
  with Cons.prems show ?case by simp
qed

lemma run_rounds:
  assumes "0 < max_workers a"
  shows "unsubmitted s = [] \<Longrightarrow> running s = [] \<Longrightarrow> finished s = [] \<Longrightarrow> queue s = ts \<Longrightarrow>
   run_events w a (concat (replicate (length ts) [Start, Finish 0, Collect 0])) s =
     Some (s\<lparr>queue := [],
             output_data := collect_all (map (result_of w a) ts) (output_data s),
             crops := crops s @ concat (map (crops_of w a) ts)\<rparr>)"
proof (induction ts arbitrary: s)
  case Nil
  then show ?case by simp
next
  case (Cons t ts)
  let ?s3 = "s\<lparr>queue := ts,
        output_data := AList.update (fst (result_of w a t)) (snd (result_of w a t)) (output_data s),
        crops := crops s @ crops_of w a t\<rparr>"
  have round: "run_events w a [Start, Finish 0, Collect 0] s = Some ?s3"
    using Cons.prems assms by simp
  have "run_events w a (concat (replicate (length ts) [Start, Finish 0, Collect 0])) ?s3 =
     Some (?s3\<lparr>queue := [],
             output_data := collect_all (map (result_of w a) ts) (output_data ?s3),
             crops := crops ?s3 @ concat (map (crops_of w a) ts)\<rparr>)"
    using Cons.prems by (intro Cons.IH) simp_all
  with round show ?case
    using run_events_append [of w a "[Start, Finish 0, Collect 0]" _ s] by simp
qed

lemma fifo_run:
  assumes "0 < max_workers a"
  shows "run_events w a (fifo_schedule (length tasks)) (init_pool tasks) =
    Some \<lparr>unsubmitted = [], queue = [], running = [], finished = [],
          output_data = collect_all (sequential_results w a tasks) [],
          crops = concat (map (crops_of w a) tasks)\<rparr>"
proof -
  let ?s1 = "(init_pool tasks)\<lparr>unsubmitted := [], queue := queue (init_pool tasks) @ tasks\<rparr>"
  have "run_events w a (replicate (length tasks) Submit) (init_pool tasks) = Some ?s1"
    by (rule run_submits) (simp add: init_pool_def)
  moreover have "run_events w a (concat (replicate (length tasks) [Start, Finish 0, Collect 0])) ?s1 =
     Some (?s1\<lparr>queue := [],
             output_data := collect_all (map (result_of w a) tasks) (output_data ?s1),
             crops := crops ?s1 @ concat (map (crops_of w a) tasks)\<rparr>)"
    using assms by (intro run_rounds) (simp_all add: init_pool_def)
  ultimately show ?thesis
    by (simp add: fifo_schedule_def run_events_append init_pool_def sequential_results_def)
qed

section \<open>Soundness of stored results, crops, isolation and refinement\<close>

lemma reachable_tasks_sound:
  "reachable w a tasks s \<Longrightarrow>
   set (unsubmitted s) \<union> set (queue s) \<union> set (running s) \<subseteq> set tasks"
proof (induction rule: reachable.induct)
  case init
  show ?case by (simp add: init_pool_def)
next
  case (step s ev s')
  from step.hyps(2) show ?case
  proof (cases rule: pool_step_cases)
    case (Finish i)
    with step.IH show ?thesis
      using set_remove_nth_subset [of i "running s"] by auto
  qed (use step.IH in auto)
qed

lemma reachable_results_sound:
  "reachable w a tasks s \<Longrightarrow> set (finished s) \<union> set (output_data s) \<subseteq> result_of w a ` set tasks"
proof (induction rule: reachable.induct)
  case init
  show ?case by (simp add: init_pool_def)
next
  case (step s ev s')
  from step.hyps(2) show ?case
  proof (cases rule: pool_step_cases)
    case (Finish i)
    then have "running s ! i \<in> set tasks"
      using reachable_tasks_sound [OF step.hyps(1)] nth_mem [of i "running s"] by blast
    then have "result_of w a (running s ! i) \<in> result_of w a ` set tasks"
      by (rule imageI)
    with step.IH Finish show ?thesis by simp
  next
    case (Collect i)
    then have mem: "finished s ! i \<in> set (finished s)" by simp
    have "set (output_data s') \<subseteq> insert (finished s ! i) (set (output_data s))"
      using set_update_subset [of "fst (finished s ! i)" "snd (finished s ! i)" "output_data s"] Collect
      by simp
    moreover have "set (finished s') \<subseteq> set (finished s)"
      using Collect set_remove_nth_subset [of i "finished s"] by simp
    ultimately show ?thesis
      using step.IH mem by blast
  qed (use step.IH in auto)
qed

lemma crops_inv_step:
  assumes "pool_step w a ev s = Some s'"
  shows "mset (crops s') + mset (concat (map (crops_of w a) (unsubmitted s' @ queue s' @ running s')))
       = mset (crops s) + mset (concat (map (crops_of w a) (unsubmitted s @ queue s @ running s)))"
  using assms
proof (cases rule: pool_step_cases)
  case (Finish i)
  then show ?thesis
    by (simp add: mset_concat_remove_nth [of i "running s"])
qed auto

lemma reachable_crops:
  "reachable w a tasks s \<Longrightarrow>
   mset (crops s) + mset (concat (map (crops_of w a) (unsubmitted s @ queue s @ running s)))
     = mset (concat (map (crops_of w a) tasks))"
proof (induction rule: reachable.induct)
  case init
  show ?case by (simp add: init_pool_def)
next
  case (step s ev s')
  from crops_inv_step [OF step.hyps(2)] step.IH show ?case
    by (simp only:)
qed

lemma map_of_results:
  "map_of (map (result_of w a) tasks) f =
     map_option (\<lambda>t. snd (result_of w a t)) (find (\<lambda>t. fst t = f) tasks)"
  by (induction tasks) auto

lemma batch_step_aux:
  assumes "reachable w a tasks s" and "distinct (map fst tasks)" and "pool_step w a ev s = Some s'"
  shows "batch_step w a tasks (map_of (output_data s)) (map_of (output_data s'))"
  using assms(3)
proof (cases rule: pool_step_cases)
  case (Collect i)
  let ?p = "finished s ! i"
  from Collect have mem: "?p \<in> set (finished s)" by simp
  with reachable_results_sound [OF assms(1)] obtain t where t: "t \<in> set tasks" "?p = result_of w a t"
    by auto
  have "fst ?p \<notin> set (keys (output_data s))"
    using reachable_pool_inv [OF assms(1,2)] assms(2) mem by (rule collected_key_fresh)
  then have "map_of (output_data s) (fst t) = None"
    using t by (simp add: map_of_eq_None_iff)
  moreover have "map_of (output_data s') = (map_of (output_data s))(fst t \<mapsto> snd (result_of w a t))"
    using Collect t by (simp add: update_conv')
  ultimately show ?thesis
    using t(1) unfolding batch_step_def by blast
qed (simp_all add: batch_step_def)

section \<open>Isolation\<close>

lemma process_image_infer_update:
  "f \<noteq> f0 \<Longrightarrow> process_image (w\<lparr>infer := (infer w)(f0 := g)\<rparr>) a f u = process_image w a f u"
  by (rule process_image_world_cong) simp_all

lemma process_image_infer_fail:
  "process_image (w\<lparr>infer := (infer w)(f0 := (\<lambda>u. Inl e))\<rparr>) a f0 u = ((f0, failure w e), [])"
  by (simp add: process_image_def process_image_try_def failure_def)

lemma map_of_results_update:
  assumes "distinct (map fst tasks)" and "(f0, u0) \<in> set tasks"
    and "\<And>t. t \<in> set tasks \<Longrightarrow> fst t \<noteq> f0 \<Longrightarrow> result_of w' a t = result_of w a t"
    and "result_of w' a (f0, u0) = (f0, r)"
  shows "map_of (map (result_of w' a) tasks) = (map_of (map (result_of w a) tasks))(f0 \<mapsto> r)"
proof
  fix f
  show "map_of (map (result_of w' a) tasks) f = ((map_of (map (result_of w a) tasks))(f0 \<mapsto> r)) f"
  proof (cases "f = f0")
    case True
    have "(f0, r) \<in> set (map (result_of w' a) tasks)"
      using assms(2,4) by (metis image_eqI set_map)
    moreover have "distinct (keys (map (result_of w' a) tasks))"
      using assms(1) by simp
    ultimately have "map_of (map (result_of w' a) tasks) f0 = Some r"
      by (rule map_of_is_SomeI [rotated])
    with True show ?thesis by simp
  next
    case False
    have "map_option (\<lambda>t. snd (result_of w' a t)) (find (\<lambda>t. fst t = f) tasks) =
        map_option (\<lambda>t. snd (result_of w a t)) (find (\<lambda>t. fst t = f) tasks)"
    proof (cases "find (\<lambda>t. fst t = f) tasks")
      case None
      then show ?thesis by simp
    next
      case (Some t)
      then have "t \<in> set tasks" "fst t = f"
        by (auto simp: find_Some_iff)
      with False assms(3) Some show ?thesis by simp
    qed
    with False show ?thesis
      by (simp add: map_of_results)
  qed
qed

lemma inject_failure_aux:
  assumes "reachable w a tasks s" "final s"
    and "reachable (w\<lparr>infer := (infer w)(f0 := (\<lambda>u. Inl e))\<rparr>) a tasks s'" "final s'"
    and "distinct (map fst tasks)" and "(f0, u0) \<in> set tasks"
  shows "map_of (output_data s') = (map_of (output_data s))(f0 \<mapsto> failure w e)"
proof -
  let ?w' = "w\<lparr>infer := (infer w)(f0 := (\<lambda>u. Inl e))\<rparr>"
  have "map_of (map (result_of ?w' a) tasks) = (map_of (map (result_of w a) tasks))(f0 \<mapsto> failure w e)"
    using assms(5,6)
    by (rule map_of_results_update)
       (simp_all add: result_of_def process_image_infer_update process_image_infer_fail)
  then show ?thesis
    using final_output_map [OF assms(1,5,2)] final_output_map [OF assms(3,5,4)]
    by (simp add: sequential_results_def)
qed

section \<open>The worked example\<close>

lemma ex_results:
  "result_of ex_world ex_args (''a.png'', u) = (''a.png'', ex_record)"
  "result_of ex_world ex_args (''b.jpg'', u) = (''b.jpg'', PDict [(''error'', PStr ''503'')])"
  "crops_of ex_world ex_args (''a.png'', u) = [(''faces/a_face.png'', (10, 10, 60, 60))]"
  "crops_of ex_world ex_args (''b.jpg'', u) = []"
  by (simp_all add: result_of_def crops_of_def ex_process_a ex_process_b)

lemma ex_max_workers: "max_workers ex_args = 2"
  by (simp add: ex_args_def)

lemma ex_distinct: "distinct (map fst ex_tasks)"
  by (simp add: ex_tasks_def)

lemma ex_run_fifo:
  "run_events ex_world ex_args [Submit, Submit, Start, Finish 0, Collect 0, Start, Finish 0, Collect 0]
     (init_pool ex_tasks) = Some ex_final_fifo"
  by (simp add: init_pool_def ex_tasks_def ex_results ex_max_workers ex_final_fifo_def)

lemma ex_run_lifo:
  "run_events ex_world ex_args [Submit, Submit, Start, Start, Finish 1, Finish 0, Collect 0, Collect 0]
     (init_pool ex_tasks) = Some ex_final_lifo"
  by (simp add: init_pool_def ex_tasks_def ex_results ex_max_workers ex_final_lifo_def remove_nth_def)

lemma ex_run_both:
  "run_events ex_world ex_args [Submit, Submit, Start, Start] (init_pool ex_tasks) = Some ex_both_running"
  by (simp add: init_pool_def ex_tasks_def ex_max_workers ex_both_running_def)

lemma ex_run_one:
  "run_events ex_world ex_args [Submit, Submit, Start, Finish 0] (init_pool ex_tasks) = Some ex_one_finished"
  by (simp add: init_pool_def ex_tasks_def ex_results ex_max_workers ex_one_finished_def)

lemmas ex_reachable =
  run_events_reachable [OF reachable.init ex_run_fifo]
  run_events_reachable [OF reachable.init ex_run_lifo]
  run_events_reachable [OF reachable.init ex_run_both]
  run_events_reachable [OF reachable.init ex_run_one]

lemma ex_final: "final ex_final_fifo" "final ex_final_lifo"
  by (simp_all add: final_def ex_final_fifo_def ex_final_lifo_def)

section \<open>Properties\<close>

text \<open>C1: The result of a batch does not depend on the schedule.  Whatever the
  order in which the pool starts and finishes tasks and \<^verbatim>\<open>as_completed\<close> yields them,
  once every task has been collected \<^verbatim>\<open>output_data\<close> holds, for distinct file names,
  exactly the pairs a sequential run of \<^verbatim>\<open>process_image\<close> over the tasks produces: the
  same entries up to order, hence the same mapping, one entry per input file.\<close>

theorem schedule_independent_result:
  assumes "reachable w a tasks s" and "distinct (map fst tasks)" and "final s"
  shows "mset (output_data s) = mset (sequential_results w a tasks) \<and>
         map_of (output_data s) = map_of (sequential_results w a tasks) \<and>
         length (output_data s) = length tasks \<and> distinct (keys (output_data s))"
  using final_output [OF assms] final_output_map [OF assms] final_output_length [OF assms]
    final_output_distinct [OF assms] by simp

theorem schedule_independent_result_witness:
  "mset (output_data ex_final_lifo) = mset (sequential_results ex_world ex_args ex_tasks) \<and>
   output_data ex_final_lifo = [(''b.jpg'', PDict [(''error'', PStr ''503'')]), (''a.png'', ex_record)] \<and>
   length (output_data ex_final_lifo) = 2"
  using schedule_independent_result [OF ex_reachable(2) ex_distinct ex_final(2)]
  by (simp add: ex_final_lifo_def ex_tasks_def)

text \<open>C3: Bounded parallelism: in every reachable state of the pool at most
  \<^verbatim>\<open>max_workers\<close> tasks are running.\<close>

theorem running_bounded:
  assumes "reachable w a tasks s"
  shows "int (length (running s)) \<le> max 0 (max_workers a)"
  using assms by (rule reachable_running_bounded)

theorem running_bounded_witness:
  "int (length (running ex_both_running)) = 2 \<and>
   int (length (running ex_both_running)) \<le> max 0 (max_workers ex_args)"
  using running_bounded [OF ex_reachable(3)]
  by (simp add: ex_both_running_def ex_tasks_def)

text \<open>C9: No deadlock: with at least one worker thread, every state of the pool that
  is not final has an enabled step.\<close>

theorem pool_progress:
  assumes "0 < max_workers a" and "\<not> final s"
  shows "\<exists>ev s'. pool_step w a ev s = Some s'"
  using assms by (rule pool_progress_aux)

theorem pool_progress_witness:
  "0 < max_workers ex_args \<and> \<not> final ex_one_finished \<and>
   (\<exists>ev s'. pool_step ex_world ex_args ev ex_one_finished = Some s')"
proof -
  have a: "0 < max_workers ex_args" by (simp add: ex_max_workers)
  have b: "\<not> final ex_one_finished" by (simp add: final_def ex_one_finished_def)
  show ?thesis
    using a b pool_progress [OF a b, of ex_world] by simp
qed

text \<open>C8: Termination: every execution of the pool from its initial state takes at
  most four steps per task (submit, start, finish, collect), and the state it reaches
  is final exactly when it has taken all of them.\<close>

theorem run_terminates:
  assumes "run_events w a evs (init_pool tasks) = Some s"
  shows "length evs \<le> 4 * length tasks \<and> (final s \<longleftrightarrow> length evs = 4 * length tasks)"
  using run_events_measure [OF assms] measure_pool_zero [of s] by auto

theorem run_terminates_witness:
  "length [Submit, Submit, Start, Start, Finish 1, Finish 0, Collect 0, Collect 0] = 4 * length ex_tasks \<and>
   final ex_final_lifo"
  using run_terminates [OF ex_run_lifo] by (simp add: ex_tasks_def)

text \<open>C11: A complete execution exists: with at least one worker thread the schedule
  that submits every task and then starts, finishes and collects them one at a time
  ends in a final state, and for distinct file names its \<^verbatim>\<open>output_data\<close> is the list of
  the workers' results in submission order and its crops are the workers' crops.\<close>

theorem fifo_schedule_completes:
  assumes "0 < max_workers a" and "distinct (map fst tasks)"
  shows "\<exists>s. run_events w a (fifo_schedule (length tasks)) (init_pool tasks) = Some s \<and> final s \<and>
           output_data s = sequential_results w a tasks \<and>
           crops s = concat (map (crops_of w a) tasks)"
proof -
  have "collect_all (sequential_results w a tasks) [] = sequential_results w a tasks"
    using collect_all_distinct [of "[]" "sequential_results w a tasks"] assms(2)
    by (simp add: sequential_results_def)
  with fifo_run [OF assms(1), of w tasks] show ?thesis
    by (simp add: final_def)
qed

theorem fifo_schedule_completes_witness:
  "\<exists>s. run_events ex_world ex_args (fifo_schedule (length ex_tasks)) (init_pool ex_tasks) = Some s \<and>
        final s \<and>
        output_data s = [(''a.png'', ex_record), (''b.jpg'', PDict [(''error'', PStr ''503'')])] \<and>
        crops s = [(''faces/a_face.png'', (10, 10, 60, 60))]"
proof -
  have a: "0 < max_workers ex_args" by (simp add: ex_max_workers)
  show ?thesis
    using fifo_schedule_completes [OF a ex_distinct, of ex_world]
    by (simp add: ex_tasks_def sequential_results_def ex_results)
qed

text \<open>C4: Failure isolation: if the inference call of one item is made to fail and
  everything else is left as it was, the finished batch differs from the original one
  in that item's entry only, which becomes the failure record of the injected
  exception.\<close>

theorem inject_failure_isolated:
  assumes "reachable w a tasks s" and "final s"
    and "reachable (w\<lparr>infer := (infer w)(f0 := (\<lambda>u. Inl e))\<rparr>) a tasks s'" and "final s'"
    and "distinct (map fst tasks)" and "(f0, u0) \<in> set tasks"
  shows "map_of (output_data s') = (map_of (output_data s))(f0 \<mapsto> failure w e)"
  using assms by (rule inject_failure_aux)

theorem inject_failure_isolated_witness:
  "map_of [(''a.png'', PDict [(''error'', PStr ''timed out'')]), (''b.jpg'', PDict [(''error'', PStr ''503'')])]
     = (map_of (output_data ex_final_lifo))(''a.png'' \<mapsto> PDict [(''error'', PStr ''timed out'')])"
proof -
  let ?w' = "ex_world\<lparr>infer := (infer ex_world)(''a.png'' := (\<lambda>u. Inl (Raised ''timed out'')))\<rparr>"
  let ?s' = "\<lparr>unsubmitted = [], queue = [], running = [], finished = [],
      output_data = [(''a.png'', PDict [(''error'', PStr ''timed out'')]),
                     (''b.jpg'', PDict [(''error'', PStr ''503'')])],
      crops = []\<rparr>"
  have ra: "result_of ?w' ex_args (''a.png'', u) = (''a.png'', PDict [(''error'', PStr ''timed out'')])" for u
    by (simp add: result_of_def process_image_infer_fail) (simp add: failure_def ex_world_def)
  have rb: "result_of ?w' ex_args (''b.jpg'', u) = (''b.jpg'', PDict [(''error'', PStr ''503'')])" for u
    by (simp add: result_of_def process_image_infer_update ex_process_b)
  have ca: "crops_of ?w' ex_args (''a.png'', u) = []" for u
    by (simp add: crops_of_def process_image_infer_fail)
  have cb: "crops_of ?w' ex_args (''b.jpg'', u) = []" for u
    by (simp add: crops_of_def process_image_infer_update ex_process_b)
  have "run_events ?w' ex_args [Submit, Submit, Start, Finish 0, Collect 0, Start, Finish 0, Collect 0]
      (init_pool ex_tasks) = Some ?s'"
    by (simp add: init_pool_def ex_tasks_def ra rb ca cb ex_max_workers)
  then have reach: "reachable ?w' ex_args ex_tasks ?s'"
    by (rule run_events_reachable [OF reachable.init])
  have fin: "final ?s'" by (simp add: final_def)
  have mem: "(''a.png'', ''data:image/png;base64,AA=='') \<in> set ex_tasks"
    by (simp add: ex_tasks_def)
  show ?thesis
    using inject_failure_isolated [OF ex_reachable(2) ex_final(2) reach fin ex_distinct mem]
    by (simp add: failure_def ex_world_def)
qed

text \<open>C13: Refinement of the one-item-at-a-time batch: seen through the mapping that
  \<^verbatim>\<open>output_data\<close> denotes, every step of the pool either changes nothing or adds the
  worker's result for one task whose file name had no entry yet; no step removes or
  overwrites an entry.\<close>

theorem collect_refines_batch:
  assumes "reachable w a tasks s" and "distinct (map fst tasks)" and "pool_step w a ev s = Some s'"
  shows "batch_step w a tasks (map_of (output_data s)) (map_of (output_data s'))"
  using assms by (rule batch_step_aux)

theorem collect_refines_batch_witness:
  "\<exists>s'. pool_step ex_world ex_args (Collect 0) ex_one_finished = Some s' \<and>
     output_data s' = [(''a.png'', ex_record)] \<and>
     batch_step ex_world ex_args ex_tasks (map_of (output_data ex_one_finished)) (map_of (output_data s'))"
proof -
  let ?s' = "ex_one_finished\<lparr>finished := [], output_data := [(''a.png'', ex_record)]\<rparr>"
  have st: "pool_step ex_world ex_args (Collect 0) ex_one_finished = Some ?s'"
    by (simp add: ex_one_finished_def)
  from collect_refines_batch [OF ex_reachable(4) ex_distinct st] st show ?thesis
    by simp
qed

text \<open>C21: The order of \<^verbatim>\<open>output_data\<close> is the order of collection: with distinct
  file names, after any execution of the pool the dictionary holds exactly the
  results that the loop over \<^verbatim>\<open>as_completed\<close> has received, in the order in which it
  received them.  The order of the keys therefore depends on the schedule, not on
  the directory listing.\<close>

theorem output_in_collection_order:
  assumes "run_events w a evs (init_pool tasks) = Some s" and "distinct (map fst tasks)"
  shows "output_data s = collected w a evs (init_pool tasks)"
  using output_collected [OF reachable.init assms(2,1)] by (simp add: init_pool_def)

theorem output_in_collection_order_witness:
  "collected ex_world ex_args
     [Submit, Submit, Start, Finish 0, Collect 0, Start, Finish 0, Collect 0] (init_pool ex_tasks) =
     [(''a.png'', ex_record), (''b.jpg'', PDict [(''error'', PStr ''503'')])] \<and>
   collected ex_world ex_args
     [Submit, Submit, Start, Start, Finish 1, Finish 0, Collect 0, Collect 0] (init_pool ex_tasks) =
     [(''b.jpg'', PDict [(''error'', PStr ''503'')]), (''a.png'', ex_record)]"
  using output_in_collection_order [OF ex_run_fifo ex_distinct]
    output_in_collection_order [OF ex_run_lifo ex_distinct]
  by (simp add: ex_final_fifo_def ex_final_lifo_def)

text \<open>C33: Every crop that a worker writes is written exactly once: when the batch is
  finished the writes recorded are, up to order, those of the tasks' workers.\<close>

theorem crops_complete:
  assumes "reachable w a tasks s" and "final s"
  shows "mset (crops s) = mset (concat (map (crops_of w a) tasks))"
  using reachable_crops [OF assms(1)] assms(2) by (simp add: final_def)

theorem crops_complete_witness:
  "mset (crops ex_final_lifo) = mset (concat (map (crops_of ex_world ex_args) ex_tasks)) \<and>
   crops ex_final_lifo = [(''faces/a_face.png'', (10, 10, 60, 60))]"
  using crops_complete [OF ex_reachable(2) ex_final(2)] by (simp add: ex_final_lifo_def)

text \<open>C32: In every reachable state, also with repeated file names, each pair held in
  \<^verbatim>\<open>output_data\<close> or waiting to be collected is the result of \<^verbatim>\<open>process_image\<close> for a
  submitted task: the pool stores nothing else and never mixes the results of two
  tasks.\<close>

theorem results_sound:
  assumes "reachable w a tasks s"
  shows "set (finished s) \<union> set (output_data s) \<subseteq> result_of w a ` set tasks"
  using assms by (rule reachable_results_sound)

theorem results_sound_witness:
  "set (finished ex_one_finished) \<union> set (output_data ex_one_finished)
     \<subseteq> result_of ex_world ex_args ` set ex_tasks \<and>
   finished ex_one_finished = [(''a.png'', ex_record)]"
  using results_sound [OF ex_reachable(4)] by (simp add: ex_one_finished_def)

end
