(* ===== verification/Encoder.thy ===== *)
theory Encoder
  imports Worker "HOL-Library.Word"
begin

text \<open>
  The Encoder: \<^verbatim>\<open>encode_image\<close> (\<^verbatim>\<open>src/fai.py\<close> lines 11-15).  The file system is the
  record \<open>files\<close>: \<open>listdir\<close> is \<^verbatim>\<open>os.listdir\<close> and \<open>read_bytes\<close> is opening a file
  in binary mode and reading it to the end, each with the exception it may raise,
  and \<open>makedirs\<close> is \<^verbatim>\<open>os.makedirs\<close> with \<^verbatim>\<open>exist_ok=True\<close> (\<open>None\<close> for success).
  \<open>b64encode\<close> is \<^verbatim>\<open>base64.b64encode\<close> on bytes as 8-bit words: three bytes give four
  characters of the alphabet, with \<^verbatim>\<open>=\<close> padding for a last group of one or two bytes.
  \<open>b64decode\<close> is the reference decoder the round trip is stated against; the
  program itself never decodes.
\<close>

unbundle bit_operations_syntax

section \<open>Definitions\<close>

type_synonym byte = "8 word"

record files =
  listdir :: "string \<Rightarrow> string list result"
  read_bytes :: "string \<Rightarrow> byte list result"
  makedirs :: "string \<Rightarrow> exn option"

definition b64_alphabet :: string where
  "b64_alphabet = ''ABCDEFGHIJKLMNOPQRSTUVWXYZabcdefghijklmnopqrstuvwxyz0123456789+/''"

definition b64_char :: "byte \<Rightarrow> char" where
  "b64_char s = b64_alphabet ! unat s"

fun b64encode :: "byte list \<Rightarrow> string" where
  "b64encode [] = []"
| "b64encode [a] =
     [b64_char (drop_bit 2 a), b64_char (push_bit 4 (take_bit 2 a)), CHR ''='', CHR ''='']"
| "b64encode [a, b] =
     [b64_char (drop_bit 2 a), b64_char (push_bit 4 (take_bit 2 a) OR drop_bit 4 b),
      b64_char (push_bit 2 (take_bit 4 b)), CHR ''='']"
| "b64encode (a # b # c # bs) =
     [b64_char (drop_bit 2 a), b64_char (push_bit 4 (take_bit 2 a) OR drop_bit 4 b),
      b64_char (push_bit 2 (take_bit 4 b) OR drop_bit 6 c), b64_char (take_bit 6 c)] @ b64encode bs"

definition data_uri :: "byte list \<Rightarrow> string" where
  "data_uri bs = ''data:image/png;base64,'' @ b64encode bs"

definition encode_image :: "files \<Rightarrow> string \<Rightarrow> string \<Rightarrow> (string \<times> string) result" where
  "encode_image fs image_folder filename =
     (let path = path_join image_folder filename
      in bind_exn (read_bytes fs path) (\<lambda>content. Inr (filename, data_uri content)))"

section \<open>Reference decoder\<close>

definition b64_index :: "char \<Rightarrow> byte option" where
  "b64_index c =
     (if c \<in> set b64_alphabet
      then Some (word_of_nat (length (takeWhile (\<lambda>x. x \<noteq> c) b64_alphabet))) else None)"

fun b64decode :: "string \<Rightarrow> byte list option" where
  "b64decode [] = Some []"
| "b64decode (c1 # c2 # c3 # c4 # cs) =
     (case (b64_index c1, b64_index c2) of
        (Some s1, Some s2) \<Rightarrow>
          if c3 = CHR ''='' \<and> c4 = CHR ''='' \<and> cs = [] then Some [push_bit 2 s1 OR drop_bit 4 s2]
          else (case b64_index c3 of
             None \<Rightarrow> None
           | Some s3 \<Rightarrow>
               if c4 = CHR ''='' \<and> cs = []
               then Some [push_bit 2 s1 OR drop_bit 4 s2, push_bit 4 s2 OR drop_bit 2 s3]
               else (case b64_index c4 of
                  None \<Rightarrow> None
                | Some s4 \<Rightarrow>
                    map_option
                      (\<lambda>bs. [push_bit 2 s1 OR drop_bit 4 s2, push_bit 4 s2 OR drop_bit 2 s3,
                             push_bit 6 s3 OR s4] @ bs)
                      (b64decode cs)))
      | _ \<Rightarrow> None)"
| "b64decode cs = None"

definition sextet :: "byte \<Rightarrow> bool" where
  "sextet s \<longleftrightarrow> take_bit 6 s = s"

definition ex_files :: files where
  "ex_files =
     \<lparr>listdir = (\<lambda>d. if d = ''in'' then Inr [''a.png'', ''notes.txt'', ''b.jpg'']
                      else Inl (Raised ''No such file or directory'')),
      read_bytes = (\<lambda>p. if p = ''in/a.png'' then Inr [0] else if p = ''in/b.jpg'' then Inr [1]
                      else Inl (Raised ''No such file or directory'')),
      makedirs = (\<lambda>d. None)\<rparr>"

lemmas encoder_defs = b64_char_def data_uri_def encode_image_def b64_index_def sextet_def

section \<open>Bytes and sextets\<close>

lemma bit_index_simps:
  "2 \<le> n \<Longrightarrow> Suc (Suc (n - 2)) = n"
  "\<not> n < 4 \<Longrightarrow> 4 + (n - 4) = n"
  "\<not> n < 6 \<Longrightarrow> 6 + (n - 6) = n"
  by simp_all

lemma join_first:
  "push_bit 2 (drop_bit 2 a) OR drop_bit 4 (push_bit 4 (take_bit 2 a) OR drop_bit 4 b) = (a :: byte)"
proof (rule bit_word_eqI)
  fix n assume "n < LENGTH(8)"
  then show "bit (push_bit 2 (drop_bit 2 a) OR drop_bit 4 (push_bit 4 (take_bit 2 a) OR drop_bit 4 b)) n
      = bit a n"
    by (cases "n < 2"; cases "n < 4"; cases "n < 6") (simp_all add: bit_simps bit_index_simps not_less)
qed

lemma join_second:
  "push_bit 4 (push_bit 4 (take_bit 2 a) OR drop_bit 4 b)
     OR drop_bit 2 (push_bit 2 (take_bit 4 b) OR drop_bit 6 c) = (b :: byte)"
proof (rule bit_word_eqI)
  fix n assume "n < LENGTH(8)"
  then show "bit (push_bit 4 (push_bit 4 (take_bit 2 a) OR drop_bit 4 b)
      OR drop_bit 2 (push_bit 2 (take_bit 4 b) OR drop_bit 6 c)) n = bit b n"
    by (cases "n < 2"; cases "n < 4"; cases "n < 6") (simp_all add: bit_simps bit_index_simps not_less)
qed

lemma join_third:
  "push_bit 6 (push_bit 2 (take_bit 4 b) OR drop_bit 6 c) OR take_bit 6 c = (c :: byte)"
proof (rule bit_word_eqI)
  fix n assume "n < LENGTH(8)"
  then show "bit (push_bit 6 (push_bit 2 (take_bit 4 b) OR drop_bit 6 c) OR take_bit 6 c) n = bit c n"
    by (cases "n < 2"; cases "n < 4"; cases "n < 6") (simp_all add: bit_simps bit_index_simps not_less)
qed

lemma join_low: "push_bit 6 (drop_bit 6 c) OR take_bit 6 c = (c :: byte)"
  using join_third [of 0 c] by simp

lemmas join_bytes =
  join_first join_second join_low join_first [of _ 0, simplified] join_second [of _ _ 0, simplified]

lemma sextet_less: "sextet s \<Longrightarrow> unat s < 64"
  using take_bit_nat_less_exp [of 6 "unat s"] unsigned_take_bit_eq [of 6 s, where ?'a = nat]
  by (simp add: sextet_def)

lemma sextet_simps [simp]:
  "sextet (drop_bit 2 a)"
  "sextet (push_bit 4 (take_bit 2 a) OR drop_bit 4 b)"
  "sextet (push_bit 2 (take_bit 4 b) OR drop_bit 6 c)"
  "sextet (take_bit 6 c)"
  "sextet (push_bit 4 (take_bit 2 a))"
  "sextet (push_bit 2 (take_bit 4 b))"
  unfolding sextet_def
  by (rule bit_word_eqI; auto simp: bit_simps dest: bit_imp_le_length)+

section \<open>The alphabet\<close>

lemma distinct_alphabet: "distinct b64_alphabet"
  by (simp add: b64_alphabet_def)

lemma length_alphabet [simp]: "length b64_alphabet = 64"
  by (simp add: b64_alphabet_def)

lemma pad_not_in_alphabet [simp]: "CHR ''='' \<notin> set b64_alphabet"
  by (simp add: b64_alphabet_def)

lemma takeWhile_nth_distinct:
  "distinct xs \<Longrightarrow> n < length xs \<Longrightarrow> length (takeWhile (\<lambda>x. x \<noteq> xs ! n) xs) = n"
proof (induction xs arbitrary: n)
  case Nil
  then show ?case by simp
next
  case (Cons x xs)
  then show ?case by (cases n) auto
qed

lemma b64_char_alphabet: "sextet s \<Longrightarrow> b64_char s \<in> set b64_alphabet"
  using sextet_less [of s] by (simp add: b64_char_def)

lemma b64_char_not_pad [simp]: "sextet s \<Longrightarrow> b64_char s \<noteq> CHR ''=''"
  using b64_char_alphabet [of s] pad_not_in_alphabet by metis

lemma b64_index_char [simp]: "sextet s \<Longrightarrow> b64_index (b64_char s) = Some s"
  using sextet_less [of s] takeWhile_nth_distinct [OF distinct_alphabet, of "unat s"]
  by (simp add: b64_index_def b64_char_alphabet) (simp add: b64_char_def)

section \<open>Encoding and decoding\<close>

lemma b64decode_encode: "b64decode (b64encode bs) = Some bs"
  by (induction bs rule: b64encode.induct) (simp_all add: join_bytes)

lemma b64encode_inj: "b64encode bs = b64encode bs' \<Longrightarrow> bs = bs'"
  by (metis b64decode_encode option.inject)

lemma div3_step: "(5 + n) div 3 = Suc (Suc (Suc n) div (3::nat))"
  by arith

lemma length_b64encode: "length (b64encode bs) = 4 * ((length bs + 2) div 3)"
  by (induction bs rule: b64encode.induct) (simp_all add: div3_step)

lemma set_b64encode: "set (b64encode bs) \<subseteq> set b64_alphabet \<union> {CHR ''=''}"
  by (induction bs rule: b64encode.induct) (simp_all add: b64_char_alphabet)

lemma data_uri_inj: "data_uri bs = data_uri bs' \<Longrightarrow> bs = bs'"
  by (simp add: data_uri_def b64encode_inj)

lemma encode_image_Inr_iff:
  "encode_image fs d f = Inr p \<longleftrightarrow>
     (\<exists>bs. read_bytes fs (path_join d f) = Inr bs \<and> p = (f, data_uri bs))"
  by (auto simp: encode_image_def bind_exn_eq_Inr)

lemma encode_image_Inl_iff:
  "encode_image fs d f = Inl e \<longleftrightarrow> read_bytes fs (path_join d f) = Inl e"
  by (auto simp: encode_image_def bind_exn_eq_Inl)

lemma ex_encode:
  "encode_image ex_files ''in'' ''a.png'' = Inr (''a.png'', ''data:image/png;base64,AA=='')"
  "encode_image ex_files ''in'' ''b.jpg'' = Inr (''b.jpg'', ''data:image/png;base64,AQ=='')"
  by (simp_all add: encode_image_def ex_files_def path_join_def data_uri_def b64_char_def b64_alphabet_def)

section \<open>Properties\<close>

text \<open>C15: Base64 round trip: decoding the encoding of any byte sequence gives the
  sequence back, for every length (with no, one or two padding characters).\<close>

theorem b64_roundtrip: "b64decode (b64encode bs) = Some bs"
  by (rule b64decode_encode)

text \<open>C36: Size and character set of the payload: \<open>n\<close> bytes encode to
  \<open>4 * ceiling (n / 3)\<close> characters, each from the 64-character alphabet or the padding
  character.\<close>

theorem b64encode_length:
  "length (b64encode bs) = 4 * ((length bs + 2) div 3) \<and>
   set (b64encode bs) \<subseteq> set b64_alphabet \<union> {CHR ''=''}"
  using length_b64encode [of bs] set_b64encode [of bs] by simp

text \<open>C30: The payload identifies the content: when \<^verbatim>\<open>encode_image\<close> returns the same
  data URI for two files, the two files hold the same bytes; and each result carries
  the file name it was asked for.\<close>

theorem encode_image_payload_inj:
  assumes "encode_image fs d f = Inr (f', u)" and "encode_image fs d g = Inr (g', u)"
  shows "read_bytes fs (path_join d f) = read_bytes fs (path_join d g) \<and> f' = f \<and> g' = g"
  using assms unfolding encode_image_Inr_iff by (auto dest: data_uri_inj)

theorem encode_image_payload_inj_witness:
  "read_bytes (ex_files\<lparr>read_bytes := (\<lambda>p. Inr [0])\<rparr>) (path_join ''in'' ''a.png'') =
   read_bytes (ex_files\<lparr>read_bytes := (\<lambda>p. Inr [0])\<rparr>) (path_join ''in'' ''b.jpg'')"
proof -
  let ?fs = "ex_files\<lparr>read_bytes := (\<lambda>p. Inr [0])\<rparr>"
  have a: "encode_image ?fs ''in'' ''a.png'' = Inr (''a.png'', ''data:image/png;base64,AA=='')"
    by (simp add: encode_image_def data_uri_def b64_char_def b64_alphabet_def)
  have b: "encode_image ?fs ''in'' ''b.jpg'' = Inr (''b.jpg'', ''data:image/png;base64,AA=='')"
    by (simp add: encode_image_def data_uri_def b64_char_def b64_alphabet_def)
  from encode_image_payload_inj [OF a b] show ?thesis
    by simp
qed

end
