(* ===== verification/Exporter.thy ===== *)
theory Exporter
  imports Worker
begin

text \<open>
  The Aggregator/Exporter: the three output formats of \<^verbatim>\<open>main\<close> (\<^verbatim>\<open>src/fai.py\<close> lines
  124-157).  The result of an export is the record \<open>export_out\<close>: the file \<open>written\<close>
  (path and text; the file is opened, hence created or truncated, before the first
  item is rendered), the message printed, and the exception that leaves \<^verbatim>\<open>main\<close>, if
  any.  \<open>py_str\<close> and \<open>py_repr\<close> are \<^verbatim>\<open>str\<close> and \<^verbatim>\<open>repr\<close> on the values of \<open>py\<close>;
  \<open>csv_field\<close> and \<open>csv_record\<close> are the \<^verbatim>\<open>csv\<close> module's writer with the default
  dialect, \<open>dict_writerow\<close> is \<^verbatim>\<open>csv.DictWriter\<close>'s conversion of a row,
  \<open>json_dump\<close> is \<^verbatim>\<open>json.dump\<close> with \<^verbatim>\<open>indent=4\<close>.  The shortest decimal
  representation of a finite float is the field of the record \<open>render\<close>.  Files are
  texts: the encoding of the text written is not modelled.
\<close>

section \<open>Definitions\<close>

record render =
  float_repr :: "int \<Rightarrow> int \<Rightarrow> string"

record export_out =
  written :: "(string \<times> string) option"
  printed :: "string option"
  raised :: "exn option"

definition digit_char :: "nat \<Rightarrow> char" where
  "digit_char n = char_of (48 + n)"

fun str_nat :: "nat \<Rightarrow> string" where
  "str_nat n = (if n < 10 then [digit_char n] else str_nat (n div 10) @ [digit_char (n mod 10)])"

definition str_int :: "int \<Rightarrow> string" where
  "str_int i = (if i < 0 then CHR ''-'' # str_nat (nat (- i)) else str_nat (nat i))"

definition hex_char :: "nat \<Rightarrow> char" where
  "hex_char n = (if n < 10 then char_of (48 + n) else char_of (87 + n))"

definition printable :: "char \<Rightarrow> bool" where
  "printable c \<longleftrightarrow>
     (let n = (of_char c :: nat) in (32 \<le> n \<and> n < 127) \<or> (161 \<le> n \<and> n \<noteq> 173))"

definition repr_char :: "char \<Rightarrow> char \<Rightarrow> string" where
  "repr_char quote ch =
     (if ch = quote \<or> ch = CHR 0x5C then [CHR 0x5C, ch]
      else if ch = CHR 0x09 then [CHR 0x5C, CHR ''t'']
      else if ch = CHR 0x0A then [CHR 0x5C, CHR ''n'']
      else if ch = CHR 0x0D then [CHR 0x5C, CHR ''r'']
      else if \<not> printable ch
      then [CHR 0x5C, CHR ''x'', hex_char (of_char ch div 16), hex_char (of_char ch mod 16)]
      else [ch])"

definition repr_str :: "string \<Rightarrow> string" where
  "repr_str s =
     (let quote = (if CHR 0x27 \<in> set s \<and> CHR 0x22 \<notin> set s then CHR 0x22 else CHR 0x27)
      in [quote] @ concat (map (repr_char quote) s) @ [quote])"

fun join_str :: "string \<Rightarrow> string list \<Rightarrow> string" where
  "join_str sep [] = []"
| "join_str sep [x] = x"
| "join_str sep (x # y # ys) = x @ sep @ join_str sep (y # ys)"

primrec py_repr :: "render \<Rightarrow> py \<Rightarrow> string" where
  "py_repr r PNone = ''None''"
| "py_repr r (PBool b) = (if b then ''True'' else ''False'')"
| "py_repr r (PInt i) = str_int i"
| "py_repr r (PFloat f) =
     (case f of Finite m e \<Rightarrow> float_repr r m e | PosInf \<Rightarrow> ''inf'' | NegInf \<Rightarrow> ''-inf'' | NaN \<Rightarrow> ''nan'')"
| "py_repr r (PStr s) = repr_str s"
| "py_repr r (PList xs) = ''['' @ join_str '', '' (map (py_repr r) xs) @ '']''"
| "py_repr r (PDict d) =
     ''{'' @ join_str '', '' (map (\<lambda>(k, v). repr_str k @ '': '' @ v) (map (map_prod id (py_repr r)) d)) @ ''}''"

definition py_str :: "render \<Rightarrow> py \<Rightarrow> string" where
  "py_str r v = (case v of PStr s \<Rightarrow> s | _ \<Rightarrow> py_repr r v)"

section \<open>JSON format\<close>

definition json_escape :: "char \<Rightarrow> string" where
  "json_escape c =
     (if c = CHR 0x22 then [CHR 0x5C, CHR 0x22]
      else if c = CHR 0x5C then [CHR 0x5C, CHR 0x5C]
      else if c = CHR 0x0A then [CHR 0x5C, CHR ''n'']
      else if c = CHR 0x0D then [CHR 0x5C, CHR ''r'']
      else if c = CHR 0x09 then [CHR 0x5C, CHR ''t'']
      else if c = CHR 0x08 then [CHR 0x5C, CHR ''b'']
      else if c = CHR 0x0C then [CHR 0x5C, CHR ''f'']
      else if (of_char c :: nat) < 32 \<or> 126 < (of_char c :: nat)
      then [CHR 0x5C, CHR ''u'', CHR ''0'', CHR ''0'', hex_char (of_char c div 16), hex_char (of_char c mod 16)]
      else [c])"

definition json_string :: "string \<Rightarrow> string" where
  "json_string s = [CHR 0x22] @ concat (map json_escape s) @ [CHR 0x22]"

definition newline_indent :: "nat \<Rightarrow> string" where
  "newline_indent level = CHR 0x0A # replicate (4 * level) (CHR '' '')"

primrec json_value :: "render \<Rightarrow> py \<Rightarrow> nat \<Rightarrow> string" where
  "json_value r PNone = (\<lambda>level. ''null'')"
| "json_value r (PBool b) = (\<lambda>level. if b then ''true'' else ''false'')"
| "json_value r (PInt i) = (\<lambda>level. str_int i)"
| "json_value r (PFloat f) = (\<lambda>level.
     case f of Finite m e \<Rightarrow> float_repr r m e | PosInf \<Rightarrow> ''Infinity'' | NegInf \<Rightarrow> ''-Infinity''
     | NaN \<Rightarrow> ''NaN'')"
| "json_value r (PStr s) = (\<lambda>level. json_string s)"
| "json_value r (PList xs) = (\<lambda>level.
     if xs = [] then ''[]''
     else ''['' @ newline_indent (Suc level) @
          join_str ('','' @ newline_indent (Suc level))
            (map (\<lambda>f. f (Suc level)) (map (json_value r) xs)) @
          newline_indent level @ '']'')"
| "json_value r (PDict d) = (\<lambda>level.
     if d = [] then ''{}''
     else ''{'' @ newline_indent (Suc level) @
          join_str ('','' @ newline_indent (Suc level))
            (map (\<lambda>(k, f). json_string k @ '': '' @ f (Suc level)) (map (map_prod id (json_value r)) d)) @
          newline_indent level @ ''}'')"

definition json_dump :: "render \<Rightarrow> py \<Rightarrow> string" where
  "json_dump r v = json_value r v 0"

section \<open>Text format\<close>

definition txt_field :: "render \<Rightarrow> string \<times> py \<Rightarrow> string" where
  "txt_field r kv = ''  '' @ fst kv @ '': '' @ py_str r (snd kv) @ [CHR 0x0A]"

fun export_txt :: "render \<Rightarrow> py dict \<Rightarrow> string \<Rightarrow> string \<times> exn option" where
  "export_txt r [] out = (out, None)"
| "export_txt r ((filename, data) # rest) out =
     (let out1 = out @ ''Filename: '' @ filename @ [CHR 0x0A]
      in case data of
           PDict d \<Rightarrow> export_txt r rest (out1 @ concat (map (txt_field r) d) @ [CHR 0x0A])
         | _ \<Rightarrow> (out1, Some AttributeError))"

section \<open>Comma-separated format\<close>

definition all_fields :: "string list" where
  "all_fields =
     [''filename'', ''ID_type'', ''dl_number'', ''expiry'', ''name'', ''dob'',
      ''address'', ''sex'', ''height'', ''weight'', ''hair'', ''eyes'', ''face_bbox'']"

definition csv_special :: "char \<Rightarrow> bool" where
  "csv_special c \<longleftrightarrow> c = CHR '','' \<or> c = CHR 0x22 \<or> c = CHR 0x0D \<or> c = CHR 0x0A"

definition csv_field :: "string \<Rightarrow> string" where
  "csv_field s =
     (if list_ex csv_special s
      then [CHR 0x22] @ concat (map (\<lambda>c. if c = CHR 0x22 then [c, c] else [c]) s) @ [CHR 0x22]
      else s)"

definition csv_record :: "string list \<Rightarrow> string" where
  "csv_record cells =
     (if cells = [[]] then [CHR 0x22, CHR 0x22] else join_str '','' (map csv_field cells))
     @ [CHR 0x0D, CHR 0x0A]"

definition dict_writerow :: "string list \<Rightarrow> string dict \<Rightarrow> string list result" where
  "dict_writerow fieldnames rowdict =
     (if list_ex (\<lambda>k. k \<notin> set fieldnames) (keys rowdict) then Inl ValueError
      else Inr (map (\<lambda>key. case map_of rowdict key of None \<Rightarrow> [] | Some v \<Rightarrow> v) fieldnames))"

definition csv_row :: "render \<Rightarrow> string \<Rightarrow> py \<Rightarrow> string dict" where
  "csv_row r filename data =
     (''filename'', filename) #
     (case data of
        PDict d \<Rightarrow>
          map (\<lambda>k. (k, py_str r (case map_of d k of None \<Rightarrow> PStr [] | Some v \<Rightarrow> v)))
            (filter (\<lambda>k. k \<noteq> ''filename'') all_fields)
      | _ \<Rightarrow> map (\<lambda>k. (k, [])) (filter (\<lambda>k. k \<noteq> ''filename'') all_fields))"

fun export_csv :: "render \<Rightarrow> py dict \<Rightarrow> string \<Rightarrow> string \<times> exn option" where
  "export_csv r [] out = (out, None)"
| "export_csv r ((filename, data) # rest) out =
     (case dict_writerow all_fields (csv_row r filename data) of
        Inl e \<Rightarrow> (out, Some e)
      | Inr cells \<Rightarrow> export_csv r rest (out @ csv_record cells))"

section \<open>The three formats\<close>

definition finish :: "string \<Rightarrow> string \<Rightarrow> string \<times> exn option \<Rightarrow> export_out" where
  "finish path msg res =
     \<lparr>written = Some (path, fst res),
      printed = (case snd res of None \<Rightarrow> Some (msg @ path) | Some e \<Rightarrow> None),
      raised = snd res\<rparr>"

definition export :: "render \<Rightarrow> args \<Rightarrow> py dict \<Rightarrow> export_out" where
  "export r a output_data =
     (if lower (output_format a) = ''json''
      then finish (output_path a) ''Output saved to '' (json_dump r (PDict output_data), None)
      else if lower (output_format a) = ''txt''
      then finish (output_path a) ''TXT output saved to '' (export_txt r output_data [])
      else if lower (output_format a) = ''csv''
      then finish (output_path a) ''CSV output saved to ''
             (export_csv r output_data (csv_record all_fields))
      else \<lparr>written = None,
            printed = Some (''Output format '' @ [CHR 0x27] @ output_format a @ [CHR 0x27] @ '' not supported.''),
            raised = None\<rparr>)"

definition ex_render :: render where
  "ex_render = \<lparr>float_repr = (\<lambda>m e. if m = 3 \<and> e = - 1 then ''1.5'' else ''0.0'')\<rparr>"

definition ex_output :: "py dict" where
  "ex_output = [(''a.png'', ex_record), (''b.jpg'', PDict [(''error'', PStr ''503'')])]"

section \<open>Reference renderings\<close>

text \<open>
  What the loops are meant to write: \<open>txt_item\<close> is the block of one item in the text
  format (for a value that is not a dictionary, only the header line, which is what
  is in the file when \<^verbatim>\<open>.items()\<close> raises), \<open>csv_cells\<close> is the row of one item.
\<close>

definition txt_item :: "render \<Rightarrow> string \<times> py \<Rightarrow> string" where
  "txt_item r item =
     ''Filename: '' @ fst item @ [CHR 0x0A] @
     (case snd item of PDict d \<Rightarrow> concat (map (txt_field r) d) @ [CHR 0x0A] | _ \<Rightarrow> [])"

definition csv_cells :: "render \<Rightarrow> string \<times> py \<Rightarrow> string list" where
  "csv_cells r item =
     fst item #
     map (\<lambda>k. case snd item of
                PDict d \<Rightarrow> (case map_of d k of None \<Rightarrow> [] | Some v \<Rightarrow> py_str r v)
              | _ \<Rightarrow> [])
       (tl all_fields)"

definition is_item_dict :: "string \<times> py \<Rightarrow> bool" where
  "is_item_dict item = is_dict (snd item)"

datatype csv_state = FieldStart | Unquoted | Quoted | QuoteSeen | CrSeen

fun csv_read ::
  "csv_state \<Rightarrow> string \<Rightarrow> string list \<Rightarrow> string list list \<Rightarrow> string \<Rightarrow> string list list option" where
  "csv_read st cur row rows [] = (if st = FieldStart \<and> row = [] then Some rows else None)"
| "csv_read st cur row rows (c # cs) =
     (case st of
        FieldStart \<Rightarrow>
          if c = CHR 0x22 then csv_read Quoted [] row rows cs
          else if c = CHR '','' then csv_read FieldStart [] (row @ [[]]) rows cs
          else if c = CHR 0x0D then csv_read CrSeen [] (row @ [[]]) rows cs
          else if c = CHR 0x0A then None
          else csv_read Unquoted [c] row rows cs
      | Unquoted \<Rightarrow>
          if c = CHR '','' then csv_read FieldStart [] (row @ [cur]) rows cs
          else if c = CHR 0x0D then csv_read CrSeen [] (row @ [cur]) rows cs
          else if c = CHR 0x22 \<or> c = CHR 0x0A then None
          else csv_read Unquoted (cur @ [c]) row rows cs
      | Quoted \<Rightarrow>
          if c = CHR 0x22 then csv_read QuoteSeen cur row rows cs
          else csv_read Quoted (cur @ [c]) row rows cs
      | QuoteSeen \<Rightarrow>
          if c = CHR 0x22 then csv_read Quoted (cur @ [c]) row rows cs
          else if c = CHR '','' then csv_read FieldStart [] (row @ [cur]) rows cs
          else if c = CHR 0x0D then csv_read CrSeen [] (row @ [cur]) rows cs
          else None
      | CrSeen \<Rightarrow> if c = CHR 0x0A then csv_read FieldStart [] [] (rows @ [row]) cs else None)"

definition csv_parse :: "string \<Rightarrow> string list list option" where
  "csv_parse text = csv_read FieldStart [] [] [] text"

lemmas exporter_defs =
  json_string_def newline_indent_def json_dump_def
  txt_field_def all_fields_def csv_special_def csv_field_def csv_record_def dict_writerow_def
  csv_row_def finish_def export_def txt_item_def csv_cells_def is_item_dict_def

section \<open>The text loop\<close>

lemma export_txt_dict:
  "export_txt r ((f, PDict d) # rest) out = export_txt r rest (out @ txt_item r (f, PDict d))"
  by (simp add: txt_item_def)

lemma export_txt_non_dict:
  "\<not> is_dict v \<Longrightarrow> export_txt r ((f, v) # rest) out = (out @ txt_item r (f, v), Some AttributeError)"
  by (cases v) (simp_all add: txt_item_def is_dict_def)

declare export_txt.simps(2) [simp del]

lemma export_txt_eq:
  "export_txt r od out =
     (out @ concat (map (txt_item r) (takeWhile is_item_dict od)) @
        (case dropWhile is_item_dict od of [] \<Rightarrow> [] | item # rest \<Rightarrow> txt_item r item),
      if list_all is_item_dict od then None else Some AttributeError)"
proof (induction od arbitrary: out)
  case Nil
  then show ?case by simp
next
  case (Cons item od)
  obtain f v where item: "item = (f, v)" by (cases item)
  show ?case
  proof (cases "is_dict v")
    case True
    then obtain d where "v = PDict d" by (cases v) (simp_all add: is_dict_def)
    then show ?thesis
      using Cons.IH [of "out @ txt_item r (f, PDict d)"]
      by (simp add: item export_txt_dict is_item_dict_def is_dict_def)
  next
    case False
    then show ?thesis
      by (simp add: item export_txt_non_dict is_item_dict_def)
  qed
qed

section \<open>The comma-separated loop\<close>

lemma py_str_get:
  "py_str r (case m of None \<Rightarrow> PStr [] | Some v \<Rightarrow> v) = (case m of None \<Rightarrow> [] | Some v \<Rightarrow> py_str r v)"
  by (cases m) (simp_all add: py_str_def)

lemma dict_writerow_csv_row: "dict_writerow all_fields (csv_row r f v) = Inr (csv_cells r (f, v))"
  by (cases v) (simp_all add: dict_writerow_def csv_row_def csv_cells_def all_fields_def py_str_get)

lemma export_csv_eq:
  "export_csv r od out = (out @ concat (map (\<lambda>item. csv_record (csv_cells r item)) od), None)"
proof (induction od arbitrary: out)
  case Nil
  then show ?case by simp
next
  case (Cons item od)
  then show ?case by (cases item) (simp add: dict_writerow_csv_row)
qed

lemma length_csv_cells [simp]: "length (csv_cells r item) = 13"
  by (simp add: csv_cells_def all_fields_def)

lemma csv_cells_failure: "csv_cells r (f, failure w e) = f # replicate 12 []"
  by (simp add: csv_cells_def failure_def all_fields_def eval_nat_numeral)

lemma csv_cells_non_dict: "\<not> is_dict v \<Longrightarrow> csv_cells r (f, v) = f # replicate 12 []"
  by (cases v) (simp_all add: csv_cells_def is_dict_def all_fields_def eval_nat_numeral)

section \<open>Reading back what the writer wrote\<close>

lemma csv_read_quoted:
  "csv_read Quoted cur row rows
     (concat (map (\<lambda>c. if c = CHR 0x22 then [c, c] else [c]) s) @ CHR 0x22 # rest) =
   csv_read QuoteSeen (cur @ s) row rows rest"
  by (induction s arbitrary: cur) simp_all

lemma csv_read_unquoted:
  "\<not> list_ex csv_special s \<Longrightarrow>
   csv_read Unquoted cur row rows (s @ rest) = csv_read Unquoted (cur @ s) row rows rest"
  by (induction s arbitrary: cur) (simp_all add: csv_special_def)

lemma csv_read_plain:
  "\<not> list_ex csv_special s \<Longrightarrow> t = CHR '','' \<or> t = CHR 0x0D \<Longrightarrow>
   csv_read FieldStart [] row rows (s @ t # rest) =
   csv_read (if t = CHR '','' then FieldStart else CrSeen) [] (row @ [s]) rows rest"
proof (cases s)
  case Nil
  then show ?thesis if "t = CHR '','' \<or> t = CHR 0x0D" using that by auto
next
  case (Cons c cs)
  assume a: "\<not> list_ex csv_special s" and t: "t = CHR '','' \<or> t = CHR 0x0D"
  from a Cons have "\<not> list_ex csv_special cs" and "\<not> csv_special c" by simp_all
  then show ?thesis
    using csv_read_unquoted [of cs "[c]" row rows "t # rest"] t
    by (auto simp: Cons csv_special_def)
qed

lemma csv_read_field:
  assumes "t = CHR '','' \<or> t = CHR 0x0D"
  shows "csv_read FieldStart [] row rows (csv_field s @ t # rest) =
         csv_read (if t = CHR '','' then FieldStart else CrSeen) [] (row @ [s]) rows rest"
proof (cases "list_ex csv_special s")
  case True
  then show ?thesis
    using assms csv_read_quoted [of "[]" row rows s "t # rest"] by (auto simp: csv_field_def)
next
  case False
  then show ?thesis
    using csv_read_plain [OF False assms] by (simp add: csv_field_def)
qed

lemma csv_read_cells:
  "cells \<noteq> [] \<Longrightarrow>
   csv_read FieldStart [] row rows (join_str '','' (map csv_field cells) @ CHR 0x0D # CHR 0x0A # rest) =
   csv_read FieldStart [] [] (rows @ [row @ cells]) rest"
proof (induction cells arbitrary: row)
  case Nil
  then show ?case by simp
next
  case (Cons x xs)
  show ?case
  proof (cases xs)
    case Nil
    then show ?thesis
      using csv_read_field [of "CHR 0x0D" row rows x "CHR 0x0A # rest"] by simp
  next
    case (Cons y ys)
    then show ?thesis
      using csv_read_field [of "CHR '',''" row rows x] Cons.IH [of "row @ [x]"] by simp
  qed
qed

lemma csv_read_record:
  "cells \<noteq> [] \<Longrightarrow>
   csv_read FieldStart [] [] rows (csv_record cells @ rest) = csv_read FieldStart [] [] (rows @ [cells]) rest"
  using csv_read_cells [of cells "[]" rows rest] by (auto simp: csv_record_def)

lemma csv_read_table:
  "list_all (\<lambda>cells. cells \<noteq> []) table \<Longrightarrow>
   csv_read FieldStart [] [] rows (concat (map csv_record table)) = Some (rows @ table)"
  by (induction table arbitrary: rows) (simp_all add: csv_read_record)

section \<open>The dispatch\<close>

lemma export_csv_format:
  "lower (output_format a) = ''csv'' \<Longrightarrow>
   export r a od =
     \<lparr>written = Some (output_path a, concat (map csv_record (all_fields # map (csv_cells r) od))),
      printed = Some (''CSV output saved to '' @ output_path a), raised = None\<rparr>"
  by (simp add: export_def finish_def export_csv_eq comp_def)

lemma export_txt_format:
  "lower (output_format a) = ''txt'' \<Longrightarrow>
   export r a od =
     \<lparr>written = Some (output_path a,
        concat (map (txt_item r) (takeWhile is_item_dict od)) @
        (case dropWhile is_item_dict od of [] \<Rightarrow> [] | item # rest \<Rightarrow> txt_item r item)),
      printed = (if list_all is_item_dict od then Some (''TXT output saved to '' @ output_path a) else None),
      raised = (if list_all is_item_dict od then None else Some AttributeError)\<rparr>"
  by (simp add: export_def finish_def export_txt_eq)

lemma export_json_format:
  "lower (output_format a) = ''json'' \<Longrightarrow>
   export r a od =
     \<lparr>written = Some (output_path a, json_dump r (PDict od)),
      printed = Some (''Output saved to '' @ output_path a), raised = None\<rparr>"
  by (simp add: export_def finish_def)

lemma export_unsupported:
  "lower (output_format a) \<notin> {''json'', ''txt'', ''csv''} \<Longrightarrow>
   export r a od =
     \<lparr>written = None,
      printed = Some (''Output format '' @ [CHR 0x27] @ output_format a @ [CHR 0x27] @ '' not supported.''),
      raised = None\<rparr>"
  by (simp add: export_def)

lemma csv_columns_schema:
  "all_fields = ''filename'' # filter (\<lambda>k. k \<noteq> ''altered'') (keys schema_properties)"
  by (simp add: all_fields_def schema_properties_def)

lemma lower_examples:
  "lower ''CSV'' = ''csv''" "lower ''Txt'' = ''txt''" "lower ''json'' = ''json''" "lower ''XML'' = ''xml''"
  "lower ''txt'' = ''txt''" "lower ''csv'' = ''csv''"
  by code_simp+

lemma ex_csv_cells:
  "map (csv_cells ex_render) ex_output =
     [[''a.png'', ''DL'', ''D1234567'', ''2030-01-01'', ''JANE DOE'', ''1990-01-01'', ''na'', ''F'',
       ''5'-04'', ''na'', ''BRO'', ''BLU'', ''[10, 10, 50, 50]''],
      ''b.jpg'' # replicate 12 []]"
  by code_simp

section \<open>Properties\<close>

text \<open>C14: The CSV file reads back as the table it was written from: for the format
  \<^verbatim>\<open>csv\<close> in any letter case the export raises nothing and a reader of the default
  dialect recovers the header followed by one row of thirteen cells per item, in the
  order of \<^verbatim>\<open>output_data\<close>, also when file names or values contain commas, quotes or
  line breaks.\<close>

theorem csv_export_reads_back:
  assumes "lower (output_format a) = ''csv''"
  shows "\<exists>text. export r a od =
           \<lparr>written = Some (output_path a, text),
            printed = Some (''CSV output saved to '' @ output_path a), raised = None\<rparr> \<and>
         csv_parse text = Some (all_fields # map (csv_cells r) od)"
proof -
  have "list_all (\<lambda>cells. cells \<noteq> []) (all_fields # map (csv_cells r) od)"
    by (simp add: list_all_iff all_fields_def csv_cells_def)
  from csv_read_table [OF this, of "[]"] export_csv_format [OF assms, of r od] show ?thesis
    by (simp add: csv_parse_def)
qed

theorem csv_export_reads_back_witness:
  "\<exists>text. written (export ex_render (ex_args\<lparr>output_format := ''CSV''\<rparr>) ex_output) =
       Some (''identity_outputs.json'', text) \<and>
     csv_parse text = Some
       [all_fields,
        [''a.png'', ''DL'', ''D1234567'', ''2030-01-01'', ''JANE DOE'', ''1990-01-01'', ''na'', ''F'',
         ''5'-04'', ''na'', ''BRO'', ''BLU'', ''[10, 10, 50, 50]''],
        ''b.jpg'' # replicate 12 []]"
  using csv_export_reads_back [of "ex_args\<lparr>output_format := ''CSV''\<rparr>" ex_render ex_output]
  by (auto simp: lower_examples ex_csv_cells ex_args_def)

text \<open>C29: A failure record has a row of empty cells: \<^verbatim>\<open>csv.DictWriter\<close> accepts the row
  built for \<^verbatim>\<open>{"error": ...}\<close> and writes the file name followed by twelve empty
  cells; the error message is not exported to CSV.\<close>

theorem csv_failure_row:
  "dict_writerow all_fields (csv_row r f (failure w e)) = Inr (f # replicate 12 [])"
  by (simp add: dict_writerow_csv_row csv_cells_failure)

text \<open>C16: The text export: every item whose value is a dictionary is written as its
  block (header line, one indented line per key in the value's own order, an empty
  line).  At the first item whose value is not a dictionary \<^verbatim>\<open>.items()\<close> raises
  \<^verbatim>\<open>AttributeError\<close>: the export stops, the file keeps the blocks before it and the
  header line of that item, nothing is printed, and the exception leaves \<^verbatim>\<open>main\<close>.\<close>

theorem export_txt_outcome:
  assumes "lower (output_format a) = ''txt''"
  shows "export r a od =
     \<lparr>written = Some (output_path a,
        concat (map (txt_item r) (takeWhile is_item_dict od)) @
        (case dropWhile is_item_dict od of [] \<Rightarrow> [] | item # rest \<Rightarrow> txt_item r item)),
      printed = (if list_all is_item_dict od then Some (''TXT output saved to '' @ output_path a) else None),
      raised = (if list_all is_item_dict od then None else Some AttributeError)\<rparr>"
  using assms by (rule export_txt_format)

theorem export_txt_outcome_witness:
  "export ex_render (ex_args\<lparr>output_format := ''Txt''\<rparr>)
     [(''b.jpg'', PDict [(''error'', PStr ''503'')]), (''c.png'', PList []), (''a.png'', ex_record)] =
   \<lparr>written = Some (''identity_outputs.json'',
      ''Filename: b.jpg'' @ [CHR 0x0A] @ ''  error: 503'' @ [CHR 0x0A, CHR 0x0A] @
      ''Filename: c.png'' @ [CHR 0x0A]),
    printed = None, raised = Some AttributeError\<rparr>"
  using export_txt_outcome [of "ex_args\<lparr>output_format := ''Txt''\<rparr>" ex_render
      "[(''b.jpg'', PDict [(''error'', PStr ''503'')]), (''c.png'', PList []), (''a.png'', ex_record)]"]
  by (simp add: lower_examples ex_args_def is_item_dict_def is_dict_def txt_item_def txt_field_def py_str_def)

text \<open>C35: An unsupported format is a message, not an error: when the format, in
  lower case, is none of \<^verbatim>\<open>json\<close>, \<^verbatim>\<open>txt\<close> and \<^verbatim>\<open>csv\<close>, the export writes no file
  and raises nothing; it prints that the format as given is not supported, so the
  results of the batch are lost.\<close>

theorem export_unsupported_format:
  assumes "lower (output_format a) \<notin> {''json'', ''txt'', ''csv''}"
  shows "export r a od =
     \<lparr>written = None,
      printed = Some (''Output format '' @ [CHR 0x27] @ output_format a @ [CHR 0x27] @ '' not supported.''),
      raised = None\<rparr>"
  using assms by (rule export_unsupported)

theorem export_unsupported_format_witness:
  "export ex_render (ex_args\<lparr>output_format := ''XML''\<rparr>) ex_output =
     \<lparr>written = None,
      printed = Some (''Output format '' @ [CHR 0x27] @ ''XML'' @ [CHR 0x27] @ '' not supported.''),
      raised = None\<rparr>"
  using export_unsupported_format [of "ex_args\<lparr>output_format := ''XML''\<rparr>" ex_render ex_output]
  by (simp add: lower_examples)

text \<open>C40: From the command line every run that reaches the export writes the output
  file: the parser admits only the formats \<^verbatim>\<open>json\<close>, \<^verbatim>\<open>txt\<close> and \<^verbatim>\<open>csv\<close>, so the
  branch that reports an unsupported format and writes nothing is taken only when
  \<^verbatim>\<open>main\<close> is called with a namespace that the parser did not build.\<close>

theorem export_cli_writes:
  assumes "cli_args a"
  shows "\<exists>text. written (export r a od) = Some (output_path a, text) \<and>
    printed (export r a od) \<noteq>
      Some (''Output format '' @ [CHR 0x27] @ output_format a @ [CHR 0x27] @ '' not supported.'')"
  using assms by (auto simp: cli_args_def export_def finish_def lower_examples split: option.splits)

theorem export_cli_writes_witness:
  "\<exists>text. written (export ex_render (default_args ''in'') ex_output) = Some (''identity_outputs.json'', text)"
proof -
  have "cli_args (default_args ''in'')"
    by (simp add: cli_args_def default_args_def)
  from export_cli_writes [OF this, of ex_render ex_output] show ?thesis
    by (auto simp: default_args_def)
qed

end
