(* ===== verification/Json_Text.thy ===== *)
theory Json_Text
  imports Exporter
begin

text \<open>
  A reference reader for the JSON text that the export writes: a lexer, a machine
  over the characters, and a parser, a machine over the tokens with a stack of open
  containers.  Both are structurally recursive on their input, so they are total and
  need no fuel.  The program never reads its result file; the reader is what the
  text written by \<open>json_dump\<close> is measured against.  The reader knows integers only:
  the text of a float is a parameter of the model.
\<close>

section \<open>Definitions\<close>

datatype jtoken =
    TLBrace | TRBrace | TLBrack | TRBrack | TColon | TComma
  | TStr string | TInt int | TWord string

datatype lex_mode =
    Idle
  | InString string
  | Escape string
  | Unicode string nat nat
  | InNumber bool nat bool
  | InWord string

definition is_ws :: "char \<Rightarrow> bool" where
  "is_ws c \<longleftrightarrow> c = CHR '' '' \<or> c = CHR 0x0A \<or> c = CHR 0x0D \<or> c = CHR 0x09"

definition punct :: "char \<Rightarrow> jtoken option" where
  "punct c =
     (if c = CHR ''{'' then Some TLBrace else if c = CHR ''}'' then Some TRBrace
      else if c = CHR ''['' then Some TLBrack else if c = CHR '']'' then Some TRBrack
      else if c = CHR '':'' then Some TColon else if c = CHR '','' then Some TComma
      else None)"

definition hex_val :: "char \<Rightarrow> nat option" where
  "hex_val c =
     (let n = (of_char c :: nat)
      in if 48 \<le> n \<and> n \<le> 57 then Some (n - 48)
         else if 97 \<le> n \<and> n \<le> 102 then Some (n - 87)
         else if 65 \<le> n \<and> n \<le> 70 then Some (n - 55)
         else None)"

definition unescape :: "char \<Rightarrow> char option" where
  "unescape c =
     (if c = CHR 0x22 \<or> c = CHR 0x5C \<or> c = CHR ''/'' then Some c
      else if c = CHR ''b'' then Some (CHR 0x08) else if c = CHR ''f'' then Some (CHR 0x0C)
      else if c = CHR ''n'' then Some (CHR 0x0A) else if c = CHR ''r'' then Some (CHR 0x0D)
      else if c = CHR ''t'' then Some (CHR 0x09) else None)"

definition is_letter :: "char \<Rightarrow> bool" where
  "is_letter c \<longleftrightarrow> (97::nat) \<le> of_char c \<and> of_char c \<le> (122::nat)"

definition number_token :: "bool \<Rightarrow> nat \<Rightarrow> jtoken" where
  "number_token neg n = TInt (if neg then - int n else int n)"

fun lex :: "lex_mode \<Rightarrow> jtoken list \<Rightarrow> string \<Rightarrow> jtoken list option" where
  "lex Idle toks [] = Some toks"
| "lex (InNumber neg n True) toks [] = Some (toks @ [number_token neg n])"
| "lex (InWord w) toks [] = Some (toks @ [TWord w])"
| "lex m toks [] = None"
| "lex Idle toks (c # cs) =
     (if is_ws c then lex Idle toks cs
      else case punct c of
        Some p \<Rightarrow> lex Idle (toks @ [p]) cs
      | None \<Rightarrow>
          if c = CHR 0x22 then lex (InString []) toks cs
          else if c = CHR ''-'' then lex (InNumber True 0 False) toks cs
          else if is_digit c then lex (InNumber False (nat (digit_val c)) True) toks cs
          else if is_letter c then lex (InWord [c]) toks cs
          else None)"
| "lex (InString acc) toks (c # cs) =
     (if c = CHR 0x22 then lex Idle (toks @ [TStr acc]) cs
      else if c = CHR 0x5C then lex (Escape acc) toks cs
      else if (of_char c :: nat) < 32 then None
      else lex (InString (acc @ [c])) toks cs)"
| "lex (Escape acc) toks (c # cs) =
     (if c = CHR ''u'' then lex (Unicode acc 0 0) toks cs
      else case unescape c of
        Some d \<Rightarrow> lex (InString (acc @ [d])) toks cs
      | None \<Rightarrow> None)"
| "lex (Unicode acc k v) toks (c # cs) =
     (case hex_val c of
        None \<Rightarrow> None
      | Some d \<Rightarrow>
          if k < 3 then lex (Unicode acc (Suc k) (16 * v + d)) toks cs
          else if 16 * v + d < 256 then lex (InString (acc @ [char_of (16 * v + d)])) toks cs
          else None)"
| "lex (InNumber neg n started) toks (c # cs) =
     (if is_digit c then lex (InNumber neg (10 * n + nat (digit_val c)) True) toks cs
      else if \<not> started then None
      else if is_ws c then lex Idle (toks @ [number_token neg n]) cs
      else case punct c of
        Some p \<Rightarrow> lex Idle (toks @ [number_token neg n, p]) cs
      | None \<Rightarrow> None)"
| "lex (InWord w) toks (c # cs) =
     (if is_letter c then lex (InWord (w @ [c])) toks cs
      else if is_ws c then lex Idle (toks @ [TWord w]) cs
      else case punct c of
        Some p \<Rightarrow> lex Idle (toks @ [TWord w, p]) cs
      | None \<Rightarrow> None)"

datatype frame = FList "py list" | FDict "(string \<times> py) list" | FKey "(string \<times> py) list" string

datatype pmode = ExpValue | ExpValueOrEnd | ExpKey | ExpKeyOrEnd | ExpColon | AfterValue | Done py

fun put :: "py \<Rightarrow> frame list \<Rightarrow> (frame list \<times> pmode) option" where
  "put v [] = Some ([], Done v)"
| "put v (FList xs # st) = Some (FList (xs @ [v]) # st, AfterValue)"
| "put v (FKey d k # st) = Some (FDict (d @ [(k, v)]) # st, AfterValue)"
| "put v (FDict d # st) = None"

fun close_frame :: "jtoken \<Rightarrow> frame list \<Rightarrow> (frame list \<times> pmode) option" where
  "close_frame TRBrack (FList xs # st) = put (PList xs) st"
| "close_frame TRBrace (FDict d # st) = put (PDict d) st"
| "close_frame t st = None"

fun atom :: "jtoken \<Rightarrow> py option" where
  "atom (TStr s) = Some (PStr s)"
| "atom (TInt i) = Some (PInt i)"
| "atom (TWord w) =
     (if w = ''null'' then Some PNone else if w = ''true'' then Some (PBool True)
      else if w = ''false'' then Some (PBool False) else None)"
| "atom t = None"

fun parse :: "frame list \<Rightarrow> pmode \<Rightarrow> jtoken list \<Rightarrow> py option" where
  "parse st (Done v) [] = Some v"
| "parse st m [] = None"
| "parse st m (t # ts) =
     (let next =
        (case m of
           Done v \<Rightarrow> None
         | ExpColon \<Rightarrow> (if t = TColon then Some (st, ExpValue) else None)
         | AfterValue \<Rightarrow>
             (if t = TComma
              then (case st of
                      FList xs # st' \<Rightarrow> Some (st, ExpValue)
                    | FDict d # st' \<Rightarrow> Some (st, ExpKey)
                    | _ \<Rightarrow> None)
              else close_frame t st)
         | _ \<Rightarrow>
             if m = ExpKey \<or> m = ExpKeyOrEnd
             then (case (t, st) of
                     (TStr k, FDict d # st') \<Rightarrow> Some (FKey d k # st', ExpColon)
                   | _ \<Rightarrow> if m = ExpKeyOrEnd then close_frame t st else None)
             else if t = TLBrack then Some (FList [] # st, ExpValueOrEnd)
             else if t = TLBrace then Some (FDict [] # st, ExpKeyOrEnd)
             else (case atom t of
                     Some v \<Rightarrow> put v st
                   | None \<Rightarrow> if m = ExpValueOrEnd then close_frame t st else None))
      in case next of None \<Rightarrow> None | Some (st', m') \<Rightarrow> parse st' m' ts)"

definition json_loads_ref :: "string \<Rightarrow> py option" where
  "json_loads_ref text = (case lex Idle [] text of None \<Rightarrow> None | Some toks \<Rightarrow> parse [] ExpValue toks)"

section \<open>The tokens of a value\<close>

fun sep_tokens :: "jtoken list list \<Rightarrow> jtoken list" where
  "sep_tokens [] = []"
| "sep_tokens [x] = x"
| "sep_tokens (x # y # ys) = x @ TComma # sep_tokens (y # ys)"

primrec json_tokens :: "py \<Rightarrow> jtoken list" where
  "json_tokens PNone = [TWord ''null'']"
| "json_tokens (PBool b) = [TWord (if b then ''true'' else ''false'')]"
| "json_tokens (PInt i) = [TInt i]"
| "json_tokens (PFloat f) = []"
| "json_tokens (PStr s) = [TStr s]"
| "json_tokens (PList xs) = TLBrack # sep_tokens (map json_tokens xs) @ [TRBrack]"
| "json_tokens (PDict d) =
     TLBrace # sep_tokens (map (\<lambda>(k, ts). TStr k # TColon # ts) (map (map_prod id json_tokens) d))
       @ [TRBrace]"

primrec floatless :: "py \<Rightarrow> bool" where
  "floatless PNone = True"
| "floatless (PBool b) = True"
| "floatless (PInt i) = True"
| "floatless (PFloat f) = False"
| "floatless (PStr s) = True"
| "floatless (PList xs) = list_all floatless xs"
| "floatless (PDict d) = list_all (pred_prod (\<lambda>k. True) floatless) d"

definition value_mode :: "pmode \<Rightarrow> bool" where
  "value_mode m \<longleftrightarrow> m = ExpValue \<or> m = ExpValueOrEnd"

definition key_mode :: "pmode \<Rightarrow> bool" where
  "key_mode m \<longleftrightarrow> m = ExpKey \<or> m = ExpKeyOrEnd"

definition delimited :: "string \<Rightarrow> bool" where
  "delimited s \<longleftrightarrow> (case s of [] \<Rightarrow> True | c # cs \<Rightarrow> is_ws c \<or> punct c \<noteq> None)"

definition num_of :: "nat \<Rightarrow> string \<Rightarrow> nat" where
  "num_of a ds = foldl (\<lambda>a c. 10 * a + nat (digit_val c)) a ds"

definition resume :: "(frame list \<times> pmode) option \<Rightarrow> jtoken list \<Rightarrow> py option" where
  "resume next ts = (case next of None \<Rightarrow> None | Some (st, m) \<Rightarrow> parse st m ts)"

section \<open>Parsing the tokens of a value\<close>

lemma resume_simps [simp]:
  "resume None ts = None" "resume (Some (st, m)) ts = parse st m ts"
  by (simp_all add: resume_def)

lemma parse_step:
  "parse st m (t # ts) = resume
     (case m of
        Done v \<Rightarrow> None
      | ExpColon \<Rightarrow> (if t = TColon then Some (st, ExpValue) else None)
      | AfterValue \<Rightarrow>
          (if t = TComma
           then (case st of
                   FList xs # st' \<Rightarrow> Some (st, ExpValue)
                 | FDict d # st' \<Rightarrow> Some (st, ExpKey)
                 | _ \<Rightarrow> None)
           else close_frame t st)
      | _ \<Rightarrow>
          if m = ExpKey \<or> m = ExpKeyOrEnd
          then (case (t, st) of
                  (TStr k, FDict d # st') \<Rightarrow> Some (FKey d k # st', ExpColon)
                | _ \<Rightarrow> if m = ExpKeyOrEnd then close_frame t st else None)
          else if t = TLBrack then Some (FList [] # st, ExpValueOrEnd)
          else if t = TLBrace then Some (FDict [] # st, ExpKeyOrEnd)
          else (case atom t of
                  Some v \<Rightarrow> put v st
                | None \<Rightarrow> if m = ExpValueOrEnd then close_frame t st else None)) ts"
  by (simp add: resume_def Let_def)

lemma parse_Nil [simp]: "parse st m [] = (case m of Done v \<Rightarrow> Some v | _ \<Rightarrow> None)"
  by (cases m) simp_all

declare parse.simps [simp del]

lemma parse_atom:
  "value_mode m \<Longrightarrow> atom t = Some v \<Longrightarrow> parse st m (t # ts) = resume (put v st) ts"
  by (cases t) (auto simp: parse_step value_mode_def split: if_splits)

lemma parse_open_list: "value_mode m \<Longrightarrow> parse st m (TLBrack # ts) = parse (FList [] # st) ExpValueOrEnd ts"
  by (auto simp: parse_step value_mode_def)

lemma parse_open_dict: "value_mode m \<Longrightarrow> parse st m (TLBrace # ts) = parse (FDict [] # st) ExpKeyOrEnd ts"
  by (auto simp: parse_step value_mode_def)

lemma parse_close_empty:
  "parse (FList [] # st) ExpValueOrEnd (TRBrack # ts) = resume (put (PList []) st) ts"
  "parse (FDict [] # st) ExpKeyOrEnd (TRBrace # ts) = resume (put (PDict []) st) ts"
  by (simp_all add: parse_step)

lemma parse_after_value:
  "parse (FList xs # st) AfterValue (TRBrack # ts) = resume (put (PList xs) st) ts"
  "parse (FDict d # st) AfterValue (TRBrace # ts) = resume (put (PDict d) st) ts"
  "parse (FList xs # st) AfterValue (TComma # ts) = parse (FList xs # st) ExpValue ts"
  "parse (FDict d # st) AfterValue (TComma # ts) = parse (FDict d # st) ExpKey ts"
  by (simp_all add: parse_step)

lemma parse_key:
  "key_mode m \<Longrightarrow> parse (FDict d # st) m (TStr k # TColon # ts) = parse (FKey d k # st) ExpValue ts"
  by (auto simp: parse_step key_mode_def)

lemmas parse_simps =
  parse_atom parse_open_list parse_open_dict parse_close_empty parse_after_value parse_key

lemma parse_elems:
  assumes "\<And>x st m rest. x \<in> set xs \<Longrightarrow> value_mode m \<Longrightarrow>
             parse st m (json_tokens x @ rest) = resume (put x st) rest"
    and "xs \<noteq> []" and "value_mode m"
  shows "parse (FList acc # st) m (sep_tokens (map json_tokens xs) @ TRBrack # rest) =
         resume (put (PList (acc @ xs)) st) rest"
  using assms
proof (induction xs arbitrary: acc m)
  case Nil
  then show ?case by simp
next
  case (Cons x xs)
  note IH = Cons.IH and elems = Cons.prems(1)
  have x: "parse (FList acc # st) m (json_tokens x @ ts) = parse (FList (acc @ [x]) # st) AfterValue ts" for ts
    using elems [of x m "FList acc # st" ts] Cons.prems(3) by simp
  show ?case
  proof (cases xs)
    case Nil
    then show ?thesis by (simp add: x parse_simps)
  next
    case tail: (Cons y ys)
    have "parse (FList (acc @ [x]) # st) ExpValue (sep_tokens (map json_tokens xs) @ TRBrack # rest) =
        resume (put (PList ((acc @ [x]) @ xs)) st) rest"
    proof (rule IH)
      show "parse st' m' (json_tokens x' @ rest') = resume (put x' st') rest'"
        if "x' \<in> set xs" "value_mode m'" for x' st' m' rest'
        using elems [of x' m' st' rest'] that by simp
    qed (simp_all add: tail value_mode_def)
    then show ?thesis
      by (simp add: tail x parse_simps)
  qed
qed

lemma parse_items:
  assumes "\<And>k x st m rest. (k, x) \<in> set d \<Longrightarrow> value_mode m \<Longrightarrow>
             parse st m (json_tokens x @ rest) = resume (put x st) rest"
    and "d \<noteq> []" and "key_mode m"
  shows "parse (FDict acc # st) m
           (sep_tokens (map (\<lambda>(k, ts). TStr k # TColon # ts) (map (map_prod id json_tokens) d))
            @ TRBrace # rest) =
         resume (put (PDict (acc @ d)) st) rest"
  using assms
proof (induction d arbitrary: acc m)
  case Nil
  then show ?case by simp
next
  case (Cons item d)
  note IH = Cons.IH and items = Cons.prems(1)
  obtain k x where item: "item = (k, x)" by (cases item)
  have x: "parse (FDict acc # st) m (TStr k # TColon # json_tokens x @ ts) =
      parse (FDict (acc @ [(k, x)]) # st) AfterValue ts" for ts
    using items [of k x ExpValue "FKey acc k # st" ts] Cons.prems(3)
    by (simp add: item parse_key value_mode_def)
  show ?case
  proof (cases d)
    case Nil
    then show ?thesis by (simp add: item x parse_simps)
  next
    case tail: (Cons y ys)
    have "parse (FDict (acc @ [(k, x)]) # st) ExpKey
        (sep_tokens (map (\<lambda>(k, ts). TStr k # TColon # ts) (map (map_prod id json_tokens) d))
         @ TRBrace # rest) =
        resume (put (PDict ((acc @ [(k, x)]) @ d)) st) rest"
    proof (rule IH)
      show "parse st' m' (json_tokens x' @ rest') = resume (put x' st') rest'"
        if "(k', x') \<in> set d" "value_mode m'" for k' x' st' m' rest'
        using items [of k' x' m' st' rest'] that by simp
    qed (simp_all add: tail key_mode_def)
    then show ?thesis
      by (simp add: tail item x parse_simps id_def)
  qed
qed

lemma parse_value:
  "floatless v \<Longrightarrow> value_mode m \<Longrightarrow> parse st m (json_tokens v @ rest) = resume (put v st) rest"
proof (induction v arbitrary: st m rest)
  case (PList xs)
  show ?case
  proof (cases xs)
    case Nil
    then show ?thesis using PList.prems(2) by (simp add: parse_simps)
  next
    case (Cons y ys)
    have "parse (FList [] # st) ExpValueOrEnd (sep_tokens (map json_tokens xs) @ TRBrack # rest) =
        resume (put (PList ([] @ xs)) st) rest"
    proof (rule parse_elems)
      show "parse st' m' (json_tokens x @ rest') = resume (put x st') rest'"
        if "x \<in> set xs" "value_mode m'" for x st' m' rest'
        using that PList.IH [of x m' st' rest'] PList.prems(1) by (simp add: list_all_iff)
    qed (simp_all add: Cons value_mode_def)
    then show ?thesis
      using PList.prems(2) by (simp add: parse_simps)
  qed
next
  case (PDict d)
  show ?case
  proof (cases d)
    case Nil
    then show ?thesis using PDict.prems(2) by (simp add: parse_simps)
  next
    case (Cons y ys)
    have "parse (FDict [] # st) ExpKeyOrEnd
        (sep_tokens (map (\<lambda>(k, ts). TStr k # TColon # ts) (map (map_prod id json_tokens) d))
         @ TRBrace # rest) =
        resume (put (PDict ([] @ d)) st) rest"
    proof (rule parse_items)
      show "parse st' m' (json_tokens x @ rest') = resume (put x st') rest'"
        if "(k, x) \<in> set d" "value_mode m'" for k x st' m' rest'
        using that PDict.IH [of "(k, x)" x m' st' rest'] PDict.prems(1)
        by (auto simp: list_all_iff)
    qed (simp_all add: Cons key_mode_def)
    then show ?thesis
      using PDict.prems(2) by (simp add: parse_simps)
  qed
qed (simp_all add: parse_atom)

lemma parse_tokens: "floatless v \<Longrightarrow> parse [] ExpValue (json_tokens v) = Some v"
  using parse_value [of v ExpValue "[]" "[]"] by (simp add: value_mode_def)

lemma ws_class: "is_ws c \<Longrightarrow> \<not> is_digit c \<and> \<not> is_letter c"
  by (auto simp: is_digit_def is_ws_def is_letter_def)

lemma punct_Some_iff:
  "punct c = Some p \<longleftrightarrow>
     (c, p) \<in> set [(CHR ''{'', TLBrace), (CHR ''}'', TRBrace), (CHR ''['', TLBrack), (CHR '']'', TRBrack),
                   (CHR '':'', TColon), (CHR '','', TComma)]"
  by (auto simp: punct_def)

lemma punct_class: "punct c = Some p \<Longrightarrow> \<not> is_ws c \<and> \<not> is_digit c \<and> \<not> is_letter c"
  unfolding punct_Some_iff by (auto simp: is_digit_def is_ws_def is_letter_def)

lemma digit_class:
  "is_digit c \<Longrightarrow> \<not> is_ws c \<and> punct c = None \<and> c \<noteq> CHR 0x22 \<and> c \<noteq> CHR ''-'' \<and> \<not> is_letter c"
  using punct_class [of c] ws_class [of c]
  by (cases "punct c") (auto simp: is_digit_def is_letter_def)

lemma letter_class:
  "is_letter c \<Longrightarrow> \<not> is_ws c \<and> punct c = None \<and> c \<noteq> CHR 0x22 \<and> c \<noteq> CHR ''-'' \<and> \<not> is_digit c"
  using punct_class [of c] ws_class [of c]
  by (cases "punct c") (auto simp: is_digit_def is_letter_def)

lemma delimited_simps [simp]:
  "delimited []" "is_ws c \<Longrightarrow> delimited (c # cs)" "punct c = Some p \<Longrightarrow> delimited (c # cs)"
  "delimited (newline_indent k @ s)" "delimited (CHR '','' # s)" "delimited (CHR '':'' # s)"
  by (simp_all add: delimited_def newline_indent_def is_ws_def punct_def)

section \<open>Lexing white space, punctuation and words\<close>

lemma lex_Idle_ws: "is_ws c \<Longrightarrow> lex Idle toks (c # s) = lex Idle toks s"
  by simp

lemma lex_punct: "punct c = Some p \<Longrightarrow> lex Idle toks (c # s) = lex Idle (toks @ [p]) s"
  using punct_class [of c p] by simp

lemma lex_spaces: "lex Idle toks (replicate n (CHR '' '') @ s) = lex Idle toks s"
  by (induction n) (simp_all add: lex_Idle_ws is_ws_def del: lex.simps)

lemma lex_newline_indent [simp]: "lex Idle toks (newline_indent k @ s) = lex Idle toks s"
  by (simp add: newline_indent_def lex_spaces lex_Idle_ws is_ws_def del: lex.simps)

lemma lex_puncts [simp]:
  "lex Idle toks (CHR ''['' # s) = lex Idle (toks @ [TLBrack]) s"
  "lex Idle toks (CHR '']'' # s) = lex Idle (toks @ [TRBrack]) s"
  "lex Idle toks (CHR ''{'' # s) = lex Idle (toks @ [TLBrace]) s"
  "lex Idle toks (CHR ''}'' # s) = lex Idle (toks @ [TRBrace]) s"
  "lex Idle toks (CHR '','' # s) = lex Idle (toks @ [TComma]) s"
  "lex Idle toks (CHR '':'' # s) = lex Idle (toks @ [TColon]) s"
  "lex Idle toks (CHR '' '' # s) = lex Idle toks s"
  by (simp_all add: lex_punct lex_Idle_ws punct_def is_ws_def del: lex.simps)

lemma lex_Idle_start:
  "lex Idle toks (CHR 0x22 # s) = lex (InString []) toks s"
  "lex Idle toks (CHR ''-'' # s) = lex (InNumber True 0 False) toks s"
  "is_digit c \<Longrightarrow> lex Idle toks (c # s) = lex (InNumber False (nat (digit_val c)) True) toks s"
  "is_letter c \<Longrightarrow> lex Idle toks (c # s) = lex (InWord [c]) toks s"
proof -
  show "lex Idle toks (CHR 0x22 # s) = lex (InString []) toks s"
    and "lex Idle toks (CHR ''-'' # s) = lex (InNumber True 0 False) toks s"
    by (simp_all add: is_ws_def punct_def)
  show "lex Idle toks (c # s) = lex (InNumber False (nat (digit_val c)) True) toks s" if "is_digit c"
    using digit_class [OF that] that by simp
  show "lex Idle toks (c # s) = lex (InWord [c]) toks s" if "is_letter c"
    using letter_class [OF that] that by simp
qed

lemma lex_InNumber_step:
  "is_digit c \<Longrightarrow>
   lex (InNumber neg n started) toks (c # s) = lex (InNumber neg (10 * n + nat (digit_val c)) True) toks s"
  "is_ws c \<Longrightarrow> lex (InNumber neg n True) toks (c # s) = lex Idle (toks @ [number_token neg n]) s"
  "punct c = Some p \<Longrightarrow> lex (InNumber neg n True) toks (c # s) = lex Idle (toks @ [number_token neg n, p]) s"
  using ws_class [of c] punct_class [of c p] by simp_all

lemma lex_InWord_step:
  "is_letter c \<Longrightarrow> lex (InWord w) toks (c # s) = lex (InWord (w @ [c])) toks s"
  "is_ws c \<Longrightarrow> lex (InWord w) toks (c # s) = lex Idle (toks @ [TWord w]) s"
  "punct c = Some p \<Longrightarrow> lex (InWord w) toks (c # s) = lex Idle (toks @ [TWord w, p]) s"
  using ws_class [of c] punct_class [of c p] by simp_all

lemma lex_InString_step:
  "lex (InString acc) toks (CHR 0x22 # s) = lex Idle (toks @ [TStr acc]) s"
  "lex (InString acc) toks (CHR 0x5C # s) = lex (Escape acc) toks s"
  "c \<noteq> CHR 0x22 \<Longrightarrow> c \<noteq> CHR 0x5C \<Longrightarrow> \<not> (of_char c :: nat) < 32 \<Longrightarrow>
   lex (InString acc) toks (c # s) = lex (InString (acc @ [c])) toks s"
  by simp_all

lemma lex_Escape_step:
  "lex (Escape acc) toks (CHR ''u'' # s) = lex (Unicode acc 0 0) toks s"
  "c \<noteq> CHR ''u'' \<Longrightarrow> unescape c = Some d \<Longrightarrow>
   lex (Escape acc) toks (c # s) = lex (InString (acc @ [d])) toks s"
  by simp_all

lemma lex_Unicode_step:
  "hex_val c = Some d \<Longrightarrow> k < 3 \<Longrightarrow>
   lex (Unicode acc k v) toks (c # s) = lex (Unicode acc (Suc k) (16 * v + d)) toks s"
  "hex_val c = Some d \<Longrightarrow> \<not> k < 3 \<Longrightarrow> 16 * v + d < 256 \<Longrightarrow>
   lex (Unicode acc k v) toks (c # s) = lex (InString (acc @ [char_of (16 * v + d)])) toks s"
  by simp_all

lemma lex_Nil:
  "lex Idle toks [] = Some toks"
  "lex (InNumber neg n True) toks [] = Some (toks @ [number_token neg n])"
  "lex (InWord w) toks [] = Some (toks @ [TWord w])"
  by simp_all

declare lex.simps [simp del]

lemmas lex_steps =
  lex_Idle_ws lex_punct lex_Idle_start lex_InNumber_step lex_InWord_step lex_InString_step
  lex_Escape_step lex_Unicode_step lex_Nil

lemma lex_end_token:
  assumes "delimited rest"
  shows "lex (InNumber neg n True) toks rest = lex Idle (toks @ [number_token neg n]) rest"
    and "lex (InWord w) toks rest = lex Idle (toks @ [TWord w]) rest"
proof -
  have rest: "rest = [] \<or> (\<exists>c cs. rest = c # cs \<and> (is_ws c \<or> (\<exists>p. punct c = Some p)))"
    using assms by (cases rest) (auto simp: delimited_def)
  show "lex (InNumber neg n True) toks rest = lex Idle (toks @ [number_token neg n]) rest"
    using rest by (auto simp: lex_steps)
  show "lex (InWord w) toks rest = lex Idle (toks @ [TWord w]) rest"
    using rest by (auto simp: lex_steps)
qed

lemma lex_word_letters:
  "list_all is_letter w' \<Longrightarrow> lex (InWord w) toks (w' @ rest) = lex (InWord (w @ w')) toks rest"
  by (induction w' arbitrary: w) (simp_all add: lex_steps)

lemma lex_word:
  assumes "delimited rest" and "list_all is_letter w" and "w \<noteq> []"
  shows "lex Idle toks (w @ rest) = lex Idle (toks @ [TWord w]) rest"
proof -
  obtain c cs where w: "w = c # cs" using assms(3) by (cases w) auto
  then have "lex Idle toks (w @ rest) = lex (InWord [c]) toks (cs @ rest)"
    using assms(2) by (simp add: lex_steps)
  also have "\<dots> = lex (InWord w) toks rest"
    using assms(2) by (simp add: w lex_word_letters)
  finally show ?thesis
    using lex_end_token(2) [OF assms(1)] by simp
qed

lemma lex_words:
  assumes "delimited rest"
  shows "lex Idle toks (''null'' @ rest) = lex Idle (toks @ [TWord ''null'']) rest"
    and "lex Idle toks (''true'' @ rest) = lex Idle (toks @ [TWord ''true'']) rest"
    and "lex Idle toks (''false'' @ rest) = lex Idle (toks @ [TWord ''false'']) rest"
  by (rule lex_word [OF assms]; simp add: is_letter_def)+

section \<open>Lexing integers\<close>

lemma digit_char_props: "n < 10 \<Longrightarrow> is_digit (digit_char n) \<and> nat (digit_val (digit_char n)) = n"
  by (simp add: digit_char_def is_digit_def digit_val_def)

lemma str_nat_unfold: "str_nat n = (if n < 10 then [digit_char n] else str_nat (n div 10) @ [digit_char (n mod 10)])"
  by (rule str_nat.simps)

declare str_nat.simps [simp del]

lemma str_nat_digits: "list_all is_digit (str_nat n)"
  by (induction n rule: str_nat.induct) (subst str_nat_unfold, simp add: digit_char_props)

lemma str_nat_not_Nil [simp]: "str_nat n \<noteq> []"
  by (subst str_nat_unfold) simp

lemma num_of_append [simp]: "num_of a (ds @ [d]) = 10 * num_of a ds + nat (digit_val d)"
  by (simp add: num_of_def)

lemma num_of_str_nat: "num_of 0 (str_nat n) = n"
proof (induction n rule: str_nat.induct)
  case (1 n)
  show ?case
  proof (cases "n < 10")
    case True
    then show ?thesis
      by (subst str_nat_unfold) (simp add: num_of_def digit_char_props)
  next
    case False
    then show ?thesis
      using 1 by (subst str_nat_unfold) (simp add: digit_char_props)
  qed
qed

lemma lex_digits:
  "list_all is_digit ds \<Longrightarrow>
   lex (InNumber neg n started) toks (ds @ rest) =
   lex (InNumber neg (num_of n ds) (started \<or> ds \<noteq> [])) toks rest"
  by (induction ds arbitrary: n started) (simp_all add: lex_steps num_of_def)

lemma lex_nat:
  assumes "delimited rest"
  shows "lex (InNumber neg 0 False) toks (str_nat n @ rest) = lex Idle (toks @ [number_token neg n]) rest"
  using lex_digits [OF str_nat_digits, of neg 0 False toks n rest] lex_end_token(1) [OF assms]
  by (simp add: num_of_str_nat)

lemma lex_Idle_number: "is_digit c \<Longrightarrow> lex Idle toks (c # s) = lex (InNumber False 0 False) toks (c # s)"
  by (simp add: lex_steps)

lemma lex_int:
  assumes "delimited rest"
  shows "lex Idle toks (str_int i @ rest) = lex Idle (toks @ [TInt i]) rest"
proof (cases "i < 0")
  case True
  then show ?thesis
    using lex_nat [OF assms, of True toks "nat (- i)"]
    by (simp add: str_int_def lex_steps number_token_def)
next
  case False
  obtain c cs where s: "str_nat (nat i) = c # cs"
    using str_nat_not_Nil [of "nat i"] by (cases "str_nat (nat i)") auto
  then have "is_digit c"
    using str_nat_digits [of "nat i"] by simp
  then have "lex Idle toks (str_nat (nat i) @ rest) = lex (InNumber False 0 False) toks (str_nat (nat i) @ rest)"
    by (simp add: s lex_Idle_number)
  then show ?thesis
    using False lex_nat [OF assms, of False toks "nat i"] by (simp add: str_int_def number_token_def)
qed

section \<open>Lexing strings\<close>

lemma hex_val_hex_char: "k < 16 \<Longrightarrow> hex_val (hex_char k) = Some k"
  by (auto simp: hex_val_def hex_char_def Let_def)

lemma hex_val_zero [simp]: "hex_val (CHR ''0'') = Some 0"
  by (simp add: hex_val_def)

lemma lex_unicode_escape:
  assumes "n < 256"
  shows "lex (Escape acc) toks
           (CHR ''u'' # CHR ''0'' # CHR ''0'' # hex_char (n div 16) # hex_char (n mod 16) # rest) =
         lex (InString (acc @ [char_of n])) toks rest"
proof -
  have d: "n div 16 < 16" "n mod 16 < 16" using assms by simp_all
  have "16 * (n div 16) + n mod 16 < 256" using assms by simp
  then show ?thesis
    by (simp add: lex_steps hex_val_hex_char d)
qed

lemma unescape_simps [simp]:
  "unescape (CHR 0x22) = Some (CHR 0x22)" "unescape (CHR 0x5C) = Some (CHR 0x5C)"
  "unescape (CHR ''n'') = Some (CHR 0x0A)" "unescape (CHR ''r'') = Some (CHR 0x0D)"
  "unescape (CHR ''t'') = Some (CHR 0x09)" "unescape (CHR ''b'') = Some (CHR 0x08)"
  "unescape (CHR ''f'') = Some (CHR 0x0C)"
  by (simp_all add: unescape_def)

lemma lex_escape_char:
  "lex (InString acc) toks (json_escape c @ rest) = lex (InString (acc @ [c])) toks rest"
proof -
  consider "c \<in> {CHR 0x22, CHR 0x5C, CHR 0x0A, CHR 0x0D, CHR 0x09, CHR 0x08, CHR 0x0C}"
    | "c \<notin> {CHR 0x22, CHR 0x5C, CHR 0x0A, CHR 0x0D, CHR 0x09, CHR 0x08, CHR 0x0C}"
      "(of_char c :: nat) < 32 \<or> 126 < (of_char c :: nat)"
    | "c \<notin> {CHR 0x22, CHR 0x5C, CHR 0x0A, CHR 0x0D, CHR 0x09, CHR 0x08, CHR 0x0C}"
      "\<not> ((of_char c :: nat) < 32 \<or> 126 < (of_char c :: nat))"
    by blast
  then show ?thesis
  proof cases
    case 1
    then show ?thesis
      by (auto simp: json_escape_def lex_steps)
  next
    case 2
    have "(of_char c :: nat) < 256" by simp
    from lex_unicode_escape [OF this, of acc toks rest] 2 show ?thesis
      by (simp add: json_escape_def lex_steps)
  next
    case 3
    then show ?thesis
      by (simp add: json_escape_def lex_steps)
  qed
qed

lemma lex_string_body:
  "lex (InString acc) toks (concat (map json_escape s) @ CHR 0x22 # rest) =
   lex Idle (toks @ [TStr (acc @ s)]) rest"
  by (induction s arbitrary: acc) (simp_all add: lex_steps lex_escape_char)

lemma lex_string: "lex Idle toks (json_string s @ rest) = lex Idle (toks @ [TStr s]) rest"
  using lex_string_body [of "[]" toks s rest] by (simp add: json_string_def lex_steps)

section \<open>Lexing the text of a value\<close>

lemma lex_elems:
  assumes "\<And>x toks rest. x \<in> set xs \<Longrightarrow> delimited rest \<Longrightarrow>
             lex Idle toks (json_value r x k @ rest) = lex Idle (toks @ json_tokens x) rest"
    and "xs \<noteq> []"
  shows "lex Idle toks
           (join_str (CHR '','' # newline_indent k) (map (\<lambda>x. json_value r x k) xs)
            @ newline_indent l @ CHR '']'' # rest) =
         lex Idle (toks @ sep_tokens (map json_tokens xs) @ [TRBrack]) rest"
  using assms
proof (induction xs arbitrary: toks)
  case Nil
  then show ?case by simp
next
  case (Cons x xs)
  note IH = Cons.IH and elems = Cons.prems(1)
  show ?case
  proof (cases xs)
    case Nil
    then show ?thesis
      using elems [of x "newline_indent l @ CHR '']'' # rest" toks] by simp
  next
    case tail: (Cons y ys)
    have "lex Idle (toks @ json_tokens x @ [TComma])
        (join_str (CHR '','' # newline_indent k) (map (\<lambda>x. json_value r x k) xs)
         @ newline_indent l @ CHR '']'' # rest) =
        lex Idle ((toks @ json_tokens x @ [TComma]) @ sep_tokens (map json_tokens xs) @ [TRBrack]) rest"
    proof (rule IH)
      show "lex Idle toks' (json_value r x' k @ rest') = lex Idle (toks' @ json_tokens x') rest'"
        if "x' \<in> set xs" "delimited rest'" for x' toks' rest'
        using elems [of x' rest' toks'] that by simp
    qed (simp add: tail)
    then show ?thesis
      using elems [of x "CHR '','' # newline_indent k @
          join_str (CHR '','' # newline_indent k) (map (\<lambda>x. json_value r x k) xs)
          @ newline_indent l @ CHR '']'' # rest" toks]
      by (simp add: tail)
  qed
qed

lemma lex_items:
  assumes "\<And>key x toks rest. (key, x) \<in> set d \<Longrightarrow> delimited rest \<Longrightarrow>
             lex Idle toks (json_value r x k @ rest) = lex Idle (toks @ json_tokens x) rest"
    and "d \<noteq> []"
  shows "lex Idle toks
           (join_str (CHR '','' # newline_indent k)
              (map (\<lambda>(key, x). json_string key @ '': '' @ json_value r x k) d)
            @ newline_indent l @ CHR ''}'' # rest) =
         lex Idle (toks @ sep_tokens (map (\<lambda>(key, x). TStr key # TColon # json_tokens x) d) @ [TRBrace]) rest"
  using assms
proof (induction d arbitrary: toks)
  case Nil
  then show ?case by simp
next
  case (Cons item d)
  note IH = Cons.IH and items = Cons.prems(1)
  obtain key x where item: "item = (key, x)" by (cases item)
  show ?case
  proof (cases d)
    case Nil
    then show ?thesis
      using items [of key x "newline_indent l @ CHR ''}'' # rest" "toks @ [TStr key, TColon]"]
      by (simp add: item lex_string)
  next
    case tail: (Cons y ys)
    have "lex Idle (toks @ TStr key # TColon # json_tokens x @ [TComma])
        (join_str (CHR '','' # newline_indent k)
           (map (\<lambda>(key, x). json_string key @ '': '' @ json_value r x k) d)
         @ newline_indent l @ CHR ''}'' # rest) =
        lex Idle ((toks @ TStr key # TColon # json_tokens x @ [TComma])
          @ sep_tokens (map (\<lambda>(key, x). TStr key # TColon # json_tokens x) d) @ [TRBrace]) rest"
    proof (rule IH)
      show "lex Idle toks' (json_value r x' k @ rest') = lex Idle (toks' @ json_tokens x') rest'"
        if "(key', x') \<in> set d" "delimited rest'" for key' x' toks' rest'
        using items [of key' x' rest' toks'] that by simp
    qed (simp add: tail)
    then show ?thesis
      using items [of key x "CHR '','' # newline_indent k @
          join_str (CHR '','' # newline_indent k)
            (map (\<lambda>(key, x). json_string key @ '': '' @ json_value r x k) d)
          @ newline_indent l @ CHR ''}'' # rest" "toks @ [TStr key, TColon]"]
      by (simp add: tail item lex_string)
  qed
qed

lemma json_value_PList:
  "xs \<noteq> [] \<Longrightarrow> json_value r (PList xs) level =
     CHR ''['' # newline_indent (Suc level) @
     join_str (CHR '','' # newline_indent (Suc level)) (map (\<lambda>x. json_value r x (Suc level)) xs) @
     newline_indent level @ '']''"
  by (simp add: comp_def)

lemma json_value_PDict:
  "d \<noteq> [] \<Longrightarrow> json_value r (PDict d) level =
     CHR ''{'' # newline_indent (Suc level) @
     join_str (CHR '','' # newline_indent (Suc level))
       (map (\<lambda>(key, x). json_string key @ '': '' @ json_value r x (Suc level)) d) @
     newline_indent level @ ''}''"
  by (simp add: comp_def case_prod_unfold)

lemma json_tokens_PDict:
  "json_tokens (PDict d) =
     TLBrace # sep_tokens (map (\<lambda>(key, x). TStr key # TColon # json_tokens x) d) @ [TRBrace]"
  by (simp add: comp_def case_prod_unfold)

lemma lex_value:
  "floatless v \<Longrightarrow> delimited rest \<Longrightarrow>
   lex Idle toks (json_value r v level @ rest) = lex Idle (toks @ json_tokens v) rest"
proof (induction v arbitrary: toks level rest)
  case PNone
  then show ?case using lex_words(1) [of rest toks] by simp
next
  case (PBool b)
  then show ?case
    using lex_words(2,3) [of rest toks] by simp
next
  case (PInt i)
  then show ?case by (simp add: lex_int)
next
  case (PFloat f)
  then show ?case by simp
next
  case (PStr s)
  then show ?case by (simp add: lex_string)
next
  case (PList xs)
  show ?case
  proof (cases "xs = []")
    case True
    then show ?thesis by simp
  next
    case False
    have "lex Idle (toks @ [TLBrack])
        (join_str (CHR '','' # newline_indent (Suc level)) (map (\<lambda>x. json_value r x (Suc level)) xs)
         @ newline_indent level @ CHR '']'' # rest) =
        lex Idle ((toks @ [TLBrack]) @ sep_tokens (map json_tokens xs) @ [TRBrack]) rest"
    proof (rule lex_elems)
      show "lex Idle toks' (json_value r x (Suc level) @ rest') = lex Idle (toks' @ json_tokens x) rest'"
        if "x \<in> set xs" "delimited rest'" for x toks' rest'
        using that PList.IH [of x rest' toks' "Suc level"] PList.prems(1) by (simp add: list_all_iff)
    qed (rule False)
    then show ?thesis
      by (simp add: json_value_PList [OF False] del: json_value.simps)
  qed
next
  case (PDict d)
  show ?case
  proof (cases "d = []")
    case True
    then show ?thesis by simp
  next
    case False
    have "lex Idle (toks @ [TLBrace])
        (join_str (CHR '','' # newline_indent (Suc level))
           (map (\<lambda>(key, x). json_string key @ '': '' @ json_value r x (Suc level)) d)
         @ newline_indent level @ CHR ''}'' # rest) =
        lex Idle ((toks @ [TLBrace])
          @ sep_tokens (map (\<lambda>(key, x). TStr key # TColon # json_tokens x) d) @ [TRBrace]) rest"
    proof (rule lex_items)
      show "lex Idle toks' (json_value r x (Suc level) @ rest') = lex Idle (toks' @ json_tokens x) rest'"
        if "(key, x) \<in> set d" "delimited rest'" for key x toks' rest'
        using that PDict.IH [of "(key, x)" x rest' toks' "Suc level"] PDict.prems(1)
        by (auto simp: list_all_iff)
    qed (rule False)
    then show ?thesis
      by (simp add: json_value_PDict [OF False] json_tokens_PDict del: json_value.simps json_tokens.simps)
  qed
qed

lemma json_loads_dump: "floatless v \<Longrightarrow> json_loads_ref (json_dump r v) = Some v"
  using lex_value [of v "[]" "[]" r 0] parse_tokens [of v]
  by (simp add: json_loads_ref_def json_dump_def lex_steps)

section \<open>Properties\<close>

text \<open>C28: The JSON export reads back: for the format \<^verbatim>\<open>json\<close> in any letter case the
  export writes one file at the output path, prints the confirmation and raises
  nothing, and the text written, whatever the results and their nesting, is a JSON
  document that the reference reader decodes to \<^verbatim>\<open>output_data\<close> itself, with every
  key, value and the order of the keys, provided that no result holds a float.\<close>

theorem json_export_reads_back:
  assumes "lower (output_format a) = ''json''" and "floatless (PDict od)"
  shows "\<exists>text. export r a od =
      \<lparr>written = Some (output_path a, text),
       printed = Some (''Output saved to '' @ output_path a), raised = None\<rparr> \<and>
    json_loads_ref text = Some (PDict od)"
  using assms json_loads_dump [of "PDict od" r] by (simp add: export_json_format del: floatless.simps)

theorem json_export_reads_back_witness:
  "\<exists>text. written (export ex_render ex_args ex_output) = Some (''identity_outputs.json'', text) \<and>
     json_loads_ref text = Some (PDict ex_output)"
proof -
  have a: "lower (output_format ex_args) = ''json''"
    by (simp add: ex_args_def lower_examples)
  have b: "floatless (PDict ex_output)"
    by (simp add: ex_output_def ex_record_def)
  from json_export_reads_back [OF a b, of ex_render] show ?thesis
    by (auto simp: ex_args_def)
qed

end
