(* ===== verification/Pipeline.thy ===== *)
theory Pipeline
  imports Scheduler Encoder Json_Text
begin

text \<open>
  The whole run: \<^verbatim>\<open>main\<close> (\<^verbatim>\<open>src/fai.py\<close> lines 90-157).  \<open>prepare\<close> is everything
  before the pool (client construction, the face directory, the directory filter,
  the encode phase), \<open>main\<close> adds the pool and the export.  The schedule of the pool
  is an argument: \<open>main\<close> returns \<open>None\<close> for an event list that is not a complete
  execution of the pool, \<open>Some (Inl e)\<close> when the exception \<open>e\<close> leaves \<^verbatim>\<open>main\<close> before
  any task is submitted, and \<open>Some (Inr (s, x))\<close> with the final state \<open>s\<close> of the pool
  and the outcome \<open>x\<close> of the export otherwise.  The encode phase runs in a pool of
  its own whose results are taken in submission order; reading files has no effect
  on the state, so the phase is the sequential map, failing with the first exception
  in that order.  The timing message of line 121 is not modelled.  The text of the
  result file is read back with the reference reader of \<open>Json_Text\<close>.
\<close>

section \<open>Definitions\<close>

definition is_image :: "string \<Rightarrow> bool" where
  "is_image f \<longleftrightarrow>
     endswith (lower f) ''.png'' \<or> endswith (lower f) ''.jpg'' \<or> endswith (lower f) ''.jpeg''"

definition image_files :: "files \<Rightarrow> args \<Rightarrow> string list result" where
  "image_files fs a = bind_exn (listdir fs (input_dir a)) (\<lambda>names. Inr (filter is_image names))"

definition encode_all :: "files \<Rightarrow> args \<Rightarrow> string list \<Rightarrow> task list result" where
  "encode_all fs a names = map_exn (encode_image fs (input_dir a)) names"

definition make_face_dir :: "files \<Rightarrow> args \<Rightarrow> unit result" where
  "make_face_dir fs a =
     (case face_dir a of
        None \<Rightarrow> Inr ()
      | Some d \<Rightarrow> if d = [] then Inr () else (case makedirs fs d of Some e \<Rightarrow> Inl e | None \<Rightarrow> Inr ()))"

definition prepare :: "files \<Rightarrow> world \<Rightarrow> args \<Rightarrow> task list result" where
  "prepare fs w a =
     bind_exn (case llm_init w (model a) of Some e \<Rightarrow> Inl e | None \<Rightarrow> Inr ()) (\<lambda>llm.
       bind_exn (make_face_dir fs a) (\<lambda>made.
         bind_exn (image_files fs a) (\<lambda>names. encode_all fs a names)))"

definition main ::
  "files \<Rightarrow> world \<Rightarrow> render \<Rightarrow> args \<Rightarrow> event list \<Rightarrow> (exn + pool \<times> export_out) option" where
  "main fs w r a evs =
     (case prepare fs w a of
        Inl e \<Rightarrow> Some (Inl e)
      | Inr encoded_results \<Rightarrow>
          if max_workers a \<le> 0 then Some (Inl ValueError)
          else (case run_events w a evs (init_pool encoded_results) of
                  None \<Rightarrow> None
                | Some s \<Rightarrow> if final s then Some (Inr (s, export r a (output_data s))) else None))"

definition ex_files_unreadable :: files where
  "ex_files_unreadable =
     ex_files\<lparr>read_bytes := (\<lambda>p. if p = ''in/a.png'' then Inr [0] else Inl (Raised ''Permission denied''))\<rparr>"

lemmas pipeline_defs =
  is_image_def image_files_def encode_all_def make_face_dir_def prepare_def main_def

section \<open>The directory filter\<close>

lemma lower_append [simp]: "lower (p @ s) = lower p @ lower s"
  by (simp add: lower_def)

lemma endswith_lower_iff:
  "endswith (lower f) suf \<longleftrightarrow> (\<exists>stem ext. f = stem @ ext \<and> lower ext = suf)"
proof
  assume e: "endswith (lower f) suf"
  let ?n = "length f - length suf"
  have "f = take ?n f @ drop ?n f" by simp
  moreover have "lower (drop ?n f) = suf"
    using e by (simp add: endswith_def lower_def drop_map)
  ultimately show "\<exists>stem ext. f = stem @ ext \<and> lower ext = suf" by blast
next
  assume "\<exists>stem ext. f = stem @ ext \<and> lower ext = suf"
  then obtain stem ext where "f = stem @ ext" "lower ext = suf" by blast
  then show "endswith (lower f) suf"
    using endswith_append [of "lower stem" "lower ext"] by simp
qed

lemma is_image_iff_aux:
  "is_image f \<longleftrightarrow> (\<exists>stem ext. f = stem @ ext \<and> lower ext \<in> {''.png'', ''.jpg'', ''.jpeg''})"
  unfolding is_image_def endswith_lower_iff by blast

section \<open>The encode phase\<close>

lemma encode_all_Inr_iff:
  "encode_all fs a names = Inr tasks \<longleftrightarrow>
     list_all2 (\<lambda>f t. \<exists>bs. read_bytes fs (path_join (input_dir a) f) = Inr bs \<and> t = (f, data_uri bs))
       names tasks"
  by (simp add: encode_all_def map_exn_Inr_iff encode_image_Inr_iff)

lemma encode_all_fst: "encode_all fs a names = Inr tasks \<Longrightarrow> map fst tasks = names"
  unfolding encode_all_Inr_iff by (induction rule: list_all2_induct) auto

lemma encode_all_first_error:
  assumes "\<And>f. f \<in> set pre \<Longrightarrow> \<not> raises (read_bytes fs (path_join (input_dir a) f))"
    and "read_bytes fs (path_join (input_dir a) f) = Inl e"
  shows "encode_all fs a (pre @ f # post) = Inl e"
  unfolding encode_all_def
proof (rule map_exn_first_error)
  show "encode_image fs (input_dir a) f = Inl e"
    using assms(2) by (simp add: encode_image_Inl_iff)
  show "\<not> raises (encode_image fs (input_dir a) x)" if "x \<in> set pre" for x
    using assms(1) [OF that] by (auto simp: not_raises_iff encode_image_Inr_iff)
qed

section \<open>The run\<close>

lemma make_face_dir_Inr: "make_face_dir fs a = Inr u \<longleftrightarrow>
   (case face_dir a of None \<Rightarrow> True | Some d \<Rightarrow> d = [] \<or> makedirs fs d = None)"
  by (auto simp: make_face_dir_def split: option.splits)

lemma prepare_Inr_iff:
  "prepare fs w a = Inr tasks \<longleftrightarrow>
     llm_init w (model a) = None \<and> make_face_dir fs a = Inr () \<and>
     (\<exists>names. listdir fs (input_dir a) = Inr names \<and> encode_all fs a (filter is_image names) = Inr tasks)"
  by (auto simp: prepare_def image_files_def bind_exn_eq_Inr split: option.splits)

lemma prepare_tasks:
  "prepare fs w a = Inr tasks \<Longrightarrow> listdir fs (input_dir a) = Inr names \<Longrightarrow>
   map fst tasks = filter is_image names"
  by (auto simp: prepare_Inr_iff dest: encode_all_fst)

lemma main_Inr_iff:
  "main fs w r a evs = Some (Inr (s, x)) \<longleftrightarrow>
     (\<exists>tasks. prepare fs w a = Inr tasks \<and> 0 < max_workers a \<and>
        run_events w a evs (init_pool tasks) = Some s \<and> final s \<and> x = export r a (output_data s))"
  by (auto simp: main_def split: sum.splits option.splits if_splits)

lemma main_Inl_iff:
  "main fs w r a evs = Some (Inl e) \<longleftrightarrow>
     prepare fs w a = Inl e \<or> (\<exists>tasks. prepare fs w a = Inr tasks \<and> max_workers a \<le> 0 \<and> e = ValueError)"
  by (auto simp: main_def split: sum.splits option.splits if_splits)

lemma main_output:
  assumes "main fs w r a evs = Some (Inr (s, x))" and "listdir fs (input_dir a) = Inr names"
    and "distinct names"
  obtains tasks where "prepare fs w a = Inr tasks" "map fst tasks = filter is_image names"
    "mset (output_data s) = mset (sequential_results w a tasks)"
    "map_of (output_data s) = map_of (sequential_results w a tasks)"
    "length (output_data s) = length tasks" "distinct (keys (output_data s))"
proof -
  from assms(1) obtain tasks where t: "prepare fs w a = Inr tasks"
    and run: "run_events w a evs (init_pool tasks) = Some s" and fin: "final s"
    unfolding main_Inr_iff by blast
  have names: "map fst tasks = filter is_image names"
    using t assms(2) by (rule prepare_tasks)
  then have d: "distinct (map fst tasks)"
    using assms(3) by simp
  have reach: "reachable w a tasks s"
    using run by (rule run_events_reachable [OF reachable.init])
  show thesis
    using that [OF t names final_output [OF reach d fin] final_output_map [OF reach d fin]
        final_output_length [OF reach d fin] final_output_distinct [OF reach d fin]] .
qed

lemma encoded_result:
  assumes "encode_all fs a names = Inr tasks" and "distinct names" and "f \<in> set names"
  shows "\<exists>bs. read_bytes fs (path_join (input_dir a) f) = Inr bs \<and>
    map_of (sequential_results w' a' tasks) f = Some (snd (result_of w' a' (f, data_uri bs)))"
proof -
  from assms(3) obtain i where i: "i < length names" "names ! i = f"
    by (auto simp: in_set_conv_nth)
  have all: "list_all2 (\<lambda>f t. \<exists>bs. read_bytes fs (path_join (input_dir a) f) = Inr bs \<and> t = (f, data_uri bs))
      names tasks"
    using assms(1) by (simp only: encode_all_Inr_iff)
  from list_all2_nthD [OF all i(1)] i(2) obtain bs where
    bs: "read_bytes fs (path_join (input_dir a) f) = Inr bs" and eq: "tasks ! i = (f, data_uri bs)"
    by auto
  define t where "t = tasks ! i"
  have t: "t \<in> set tasks"
    using i(1) list_all2_lengthD [OF all] by (simp add: t_def)
  note eq = eq [folded t_def]
  have "distinct (map fst (sequential_results w' a' tasks))"
    using assms(2) encode_all_fst [OF assms(1)] by (simp add: sequential_results_def)
  moreover have "result_of w' a' t = (f, snd (result_of w' a' t))"
    using eq result_of_fst [of w' a' t] by (metis fst_conv prod.collapse)
  then have "(f, snd (result_of w' a' t)) \<in> set (sequential_results w' a' tasks)"
    using t by (metis image_eqI list.set_map sequential_results_def)
  ultimately have "map_of (sequential_results w' a' tasks) f = Some (snd (result_of w' a' t))"
    by (rule map_of_is_SomeI)
  with bs eq show ?thesis by blast
qed

lemma main_results:
  assumes "main fs w r a evs = Some (Inr (s, x))" and "listdir fs (input_dir a) = Inr names"
    and "distinct names" and "f \<in> set names" and "is_image f"
  shows "\<exists>bs. read_bytes fs (path_join (input_dir a) f) = Inr bs \<and>
    map_of (output_data s) f = Some (snd (result_of w a (f, data_uri bs)))"
proof -
  from assms(1-3) obtain tasks where t: "prepare fs w a = Inr tasks"
    and m: "map_of (output_data s) = map_of (sequential_results w a tasks)"
    by (rule main_output)
  from t assms(2) have "encode_all fs a (filter is_image names) = Inr tasks"
    by (simp add: prepare_Inr_iff)
  from encoded_result [OF this, of f w a] assms(3-5) m show ?thesis
    by simp
qed

lemma ex_prepare: "prepare ex_files ex_world ex_args = Inr ex_tasks"
  by code_simp

lemma ex_main_lifo:
  "main ex_files ex_world ex_render ex_args
     [Submit, Submit, Start, Start, Finish 1, Finish 0, Collect 0, Collect 0] =
   Some (Inr (ex_final_lifo, export ex_render ex_args (output_data ex_final_lifo)))"
  unfolding main_Inr_iff
  by (intro exI [of _ ex_tasks] conjI ex_prepare ex_run_lifo ex_final refl) (simp add: ex_max_workers)

lemma ex_main_fifo:
  "main ex_files ex_world ex_render ex_args
     [Submit, Submit, Start, Finish 0, Collect 0, Start, Finish 0, Collect 0] =
   Some (Inr (ex_final_fifo, export ex_render ex_args (output_data ex_final_fifo)))"
  unfolding main_Inr_iff
  by (intro exI [of _ ex_tasks] conjI ex_prepare ex_run_fifo ex_final refl) (simp add: ex_max_workers)

lemma ex_listdir: "listdir ex_files (input_dir ex_args) = Inr [''a.png'', ''notes.txt'', ''b.jpg'']"
  by (simp add: ex_files_def ex_args_def)

section \<open>Properties\<close>

text \<open>C6: The outcome of a run does not depend on the schedule: for a directory
  listing without repetitions, any two complete executions of \<^verbatim>\<open>main\<close> end with the
  same mapping from file names to results and the same entries up to order, one
  entry for each listed file with an image extension and none for any other file.\<close>

theorem main_schedule_independent:
  assumes "listdir fs (input_dir a) = Inr names" and "distinct names"
    and "main fs w r a evs = Some (Inr (s, x))" and "main fs w r a evs' = Some (Inr (s', x'))"
  shows "map_of (output_data s) = map_of (output_data s') \<and>
         mset (output_data s) = mset (output_data s') \<and>
         mset (keys (output_data s)) = mset (filter is_image names) \<and>
         distinct (keys (output_data s))"
proof -
  from assms(3,1,2) obtain tasks where t: "prepare fs w a = Inr tasks"
    and n: "map fst tasks = filter is_image names"
    and m: "mset (output_data s) = mset (sequential_results w a tasks)"
    and f: "map_of (output_data s) = map_of (sequential_results w a tasks)"
    and d: "distinct (keys (output_data s))"
    by (rule main_output)
  from assms(4,1,2) obtain tasks' where t': "prepare fs w a = Inr tasks'"
    and m': "mset (output_data s') = mset (sequential_results w a tasks')"
    and f': "map_of (output_data s') = map_of (sequential_results w a tasks')"
    by (rule main_output)
  have "mset (keys (output_data s)) = mset (map fst (sequential_results w a tasks))"
    using m by (metis mset_map)
  then have "mset (keys (output_data s)) = mset (filter is_image names)"
    using n by (simp add: sequential_results_def keys_results_comp)
  with t t' m m' f f' d show ?thesis by simp
qed

theorem main_schedule_independent_witness:
  "map_of (output_data ex_final_lifo) = map_of (output_data ex_final_fifo) \<and>
   mset (keys (output_data ex_final_lifo)) = mset [''a.png'', ''b.jpg''] \<and>
   keys (output_data ex_final_lifo) = [''b.jpg'', ''a.png''] \<and>
   keys (output_data ex_final_fifo) = [''a.png'', ''b.jpg'']"
proof -
  have d: "distinct [''a.png'', ''notes.txt'', ''b.jpg'']" by simp
  have "filter is_image [''a.png'', ''notes.txt'', ''b.jpg''] = [''a.png'', ''b.jpg'']"
    by code_simp
  with main_schedule_independent [OF ex_listdir d ex_main_lifo ex_main_fifo] show ?thesis
    by (simp add: ex_final_lifo_def ex_final_fifo_def)
qed

text \<open>C10: The result file of a run.  Whenever \<^verbatim>\<open>main\<close> completes with the format
  \<^verbatim>\<open>json\<close>, on a directory listing without repetitions and with results that hold no
  float, it has written one file at the output path and printed the confirmation,
  and the text of the file decodes, with the reference reader, to the dictionary
  \<^verbatim>\<open>output_data\<close>: one entry for each listed name with an image extension, none for
  any other name, and under each name the result of the worker for the data URI of
  the bytes of that file.\<close>

theorem main_json_output:
  assumes "main fs w r a evs = Some (Inr (s, x))" and "listdir fs (input_dir a) = Inr names"
    and "distinct names" and "lower (output_format a) = ''json''"
    and "floatless (PDict (output_data s))"
  shows "\<exists>text. x = \<lparr>written = Some (output_path a, text),
                      printed = Some (''Output saved to '' @ output_path a), raised = None\<rparr> \<and>
    json_loads_ref text = Some (PDict (output_data s)) \<and>
    set (keys (output_data s)) = {f \<in> set names. is_image f} \<and> distinct (keys (output_data s)) \<and>
    (\<forall>f\<in>set names. is_image f \<longrightarrow>
       (\<exists>bs. read_bytes fs (path_join (input_dir a) f) = Inr bs \<and>
          map_of (output_data s) f = Some (snd (result_of w a (f, data_uri bs)))))"
proof -
  from assms(1-3) obtain tasks where n: "map fst tasks = filter is_image names"
    and m: "mset (output_data s) = mset (sequential_results w a tasks)"
    and d: "distinct (keys (output_data s))"
    by (rule main_output)
  have "mset (keys (output_data s)) = mset (map fst (sequential_results w a tasks))"
    using m by (metis mset_map)
  then have "set (keys (output_data s)) = set (filter is_image names)"
    using n by (metis keys_results sequential_results_def set_mset_mset)
  moreover have "x = export r a (output_data s)"
    using assms(1) by (auto simp: main_Inr_iff)
  moreover have "json_loads_ref (json_dump r (PDict (output_data s))) = Some (PDict (output_data s))"
    using assms(5) by (rule json_loads_dump)
  ultimately show ?thesis
    using d main_results [OF assms(1-3)] by (simp add: export_json_format [OF assms(4)])
qed

theorem main_json_output_witness:
  "\<exists>text. main ex_files ex_world ex_render ex_args
       [Submit, Submit, Start, Start, Finish 1, Finish 0, Collect 0, Collect 0] =
     Some (Inr (ex_final_lifo,
       \<lparr>written = Some (''identity_outputs.json'', text),
        printed = Some ''Output saved to identity_outputs.json'', raised = None\<rparr>)) \<and>
     json_loads_ref text =
       Some (PDict [(''b.jpg'', PDict [(''error'', PStr ''503'')]), (''a.png'', ex_record)]) \<and>
     crops ex_final_lifo = [(''faces/a_face.png'', (10, 10, 60, 60))]"
proof -
  have d: "distinct [''a.png'', ''notes.txt'', ''b.jpg'']" by simp
  have f: "lower (output_format ex_args) = ''json''"
    by (simp add: ex_args_def lower_examples)
  have fl: "floatless (PDict (output_data ex_final_lifo))"
    by (simp add: ex_final_lifo_def ex_record_def)
  from main_json_output [OF ex_main_lifo ex_listdir d f fl] obtain content where
    "export ex_render ex_args (output_data ex_final_lifo) =
       \<lparr>written = Some (output_path ex_args, content),
        printed = Some (''Output saved to '' @ output_path ex_args), raised = None\<rparr>"
    "json_loads_ref content = Some (PDict (output_data ex_final_lifo))"
    by blast
  with ex_main_lifo show ?thesis
    by (simp add: ex_final_lifo_def ex_args_def)
qed

text \<open>C19: A pool without workers is rejected late: when \<^verbatim>\<open>max_workers\<close> is zero or
  negative every run crashes, whatever the schedule, and no result is written; the
  exception is the one of the preparation if the preparation fails, and otherwise the
  \<^verbatim>\<open>ValueError\<close> of the pool's constructor, raised only after the face directory has
  been made and every image has been read and encoded.\<close>

theorem main_no_workers:
  assumes "max_workers a \<le> 0"
  shows "main fs w r a evs = Some (Inl (case prepare fs w a of Inl e \<Rightarrow> e | Inr tasks \<Rightarrow> ValueError))"
  using assms by (simp add: main_def split: sum.splits)

theorem main_no_workers_witness:
  "main ex_files ex_world ex_render (ex_args\<lparr>max_workers := 0\<rparr>) [Submit, Submit] = Some (Inl ValueError) \<and>
   prepare ex_files ex_world (ex_args\<lparr>max_workers := 0\<rparr>) = Inr ex_tasks"
proof -
  have p: "prepare ex_files ex_world (ex_args\<lparr>max_workers := 0\<rparr>) = Inr ex_tasks"
    by code_simp
  have "max_workers (ex_args\<lparr>max_workers := 0\<rparr>) \<le> 0" by simp
  from main_no_workers [OF this, of ex_files ex_world ex_render "[Submit, Submit]"] p show ?thesis
    by simp
qed

text \<open>C18: One unreadable image aborts the whole run: when the client and the face
  directory are ready and the directory can be listed, the first image file, in
  listing order, that cannot be read makes \<^verbatim>\<open>main\<close> crash with the exception of that
  read, before any inference call, for every schedule.\<close>

theorem encode_failure_aborts:
  assumes "llm_init w (model a) = None" and "make_face_dir fs a = Inr ()"
    and "listdir fs (input_dir a) = Inr names" and "filter is_image names = pre @ f # post"
    and "\<And>g. g \<in> set pre \<Longrightarrow> \<not> raises (read_bytes fs (path_join (input_dir a) g))"
    and "read_bytes fs (path_join (input_dir a) f) = Inl e"
  shows "main fs w r a evs = Some (Inl e)"
proof -
  have "encode_all fs a (pre @ f # post) = Inl e"
    using assms(5,6) by (rule encode_all_first_error)
  then have "prepare fs w a = Inl e"
    using assms(1-4) by (simp add: prepare_def image_files_def)
  then show ?thesis by (simp add: main_def)
qed

theorem encode_failure_aborts_witness:
  "main ex_files_unreadable ex_world ex_render ex_args [Submit, Submit] =
     Some (Inl (Raised ''Permission denied''))"
proof (rule encode_failure_aborts)
  show "llm_init ex_world (model ex_args) = None"
    by (simp add: ex_world_def)
  show "make_face_dir ex_files_unreadable ex_args = Inr ()"
    by (simp add: make_face_dir_def ex_args_def ex_files_unreadable_def ex_files_def)
  show "listdir ex_files_unreadable (input_dir ex_args) = Inr [''a.png'', ''notes.txt'', ''b.jpg'']"
    by (simp add: ex_files_unreadable_def ex_files_def ex_args_def)
  show "filter is_image [''a.png'', ''notes.txt'', ''b.jpg''] = [''a.png''] @ ''b.jpg'' # []"
    by code_simp
  show "\<not> raises (read_bytes ex_files_unreadable (path_join (input_dir ex_args) g))"
    if "g \<in> set [''a.png'']" for g
    using that by (simp add: ex_files_unreadable_def ex_args_def path_join_def)
  show "read_bytes ex_files_unreadable (path_join (input_dir ex_args) ''b.jpg'') =
      Inl (Raised ''Permission denied'')"
    by (simp add: ex_files_unreadable_def ex_args_def path_join_def)
qed

text \<open>C34: The directory filter keeps exactly the names that end in \<^verbatim>\<open>.png\<close>, \<^verbatim>\<open>.jpg\<close>
  or \<^verbatim>\<open>.jpeg\<close> in any letter case.\<close>

theorem is_image_iff:
  "is_image f \<longleftrightarrow> (\<exists>stem ext. f = stem @ ext \<and> lower ext \<in> {''.png'', ''.jpg'', ''.jpeg''})"
  by (rule is_image_iff_aux)

text \<open>C27: A run can always complete: when the preparation succeeds with distinct
  file names and there is at least one worker, the schedule that submits every task
  and then starts, finishes and collects them one at a time makes \<^verbatim>\<open>main\<close> reach the
  export, with \<^verbatim>\<open>output_data\<close> equal to the list of the workers' results in
  submission order.\<close>

theorem main_completes:
  assumes "prepare fs w a = Inr tasks" and "0 < max_workers a" and "distinct (map fst tasks)"
  shows "\<exists>s. main fs w r a (fifo_schedule (length tasks)) =
           Some (Inr (s, export r a (sequential_results w a tasks))) \<and>
         output_data s = sequential_results w a tasks"
proof -
  have "collect_all (sequential_results w a tasks) [] = sequential_results w a tasks"
    using collect_all_distinct [of "[]" "sequential_results w a tasks"] assms(3)
    by (simp add: sequential_results_def)
  with fifo_run [OF assms(2), of w tasks] assms(1,2) show ?thesis
    by (simp add: main_def final_def)
qed

theorem main_completes_witness:
  "\<exists>s. main ex_files ex_world ex_render ex_args (fifo_schedule (length ex_tasks)) =
        Some (Inr (s, export ex_render ex_args (sequential_results ex_world ex_args ex_tasks))) \<and>
      output_data s = [(''a.png'', ex_record), (''b.jpg'', PDict [(''error'', PStr ''503'')])]"
proof -
  have a: "0 < max_workers ex_args" by (simp add: ex_max_workers)
  show ?thesis
    using main_completes [OF ex_prepare a ex_distinct, of ex_render]
    by (simp add: sequential_results_def ex_tasks_def ex_results)
qed

end
