(* ===== verification/Spec2Isabelle.thy ===== *)
theory Spec2Isabelle
  imports Pipeline
begin

text \<open>
  \<^bold>\<open>A verification development for the batch document-extraction pipeline
  \<^verbatim>\<open>src/fai.py\<close>.\<close>

  \<^bold>\<open>The program.\<close>  \<^verbatim>\<open>main\<close> lists a directory, keeps the image files, encodes each
  as a base64 data URI (\<^verbatim>\<open>encode_image\<close>), and submits one \<^verbatim>\<open>process_image\<close> task per
  file to a thread pool of \<^verbatim>\<open>max_workers\<close> threads.  A task sends the image to an
  inference service, parses the reply with \<^verbatim>\<open>json.loads\<close>, normalizes it
  (\<^verbatim>\<open>fill_missing_fields\<close> and the clean-up of \<^verbatim>\<open>height\<close>), optionally crops the
  face, and returns the pair of the file name and either the record or
  \<^verbatim>\<open>{"error": str(e)}\<close>.  The main thread stores the pairs in \<^verbatim>\<open>output_data\<close> in
  completion order and writes them as JSON, text or CSV.

  \<^bold>\<open>The theories\<close>, in the order of their imports.
  \<^item> \<open>Fai_Prelude\<close>: exceptions as a datatype, results as \<open>exn + 'a\<close> with
    \<open>bind_exn\<close>, ordered dictionaries as association lists, shared list facts.
  \<^item> \<open>Py_Values\<close>: the values \<^verbatim>\<open>json.loads\<close> returns (\<open>py\<close>) and the Python
    operations the program applies to them, each returning \<open>Inl\<close> where Python
    raises.
  \<^item> \<open>Normalizer\<close>: \<^verbatim>\<open>fill_missing_fields\<close> (lines 17-21) on every kind of value
    and the \<^verbatim>\<open>height\<close> clean-up (\<open>normalize_parsed\<close>, lines 70-73), with the
    reference definitions \<open>is_sentinel\<close>, \<open>fill_spec\<close> and \<open>normalize_spec\<close>.
  \<^item> \<open>Worker\<close>: \<^verbatim>\<open>process_image\<close> (lines 23-88) with the face crop (lines 75-84).
    The configuration is the record \<open>args\<close>, the namespace that lines 161-170 build:
    \<open>default_args\<close> holds the defaults of the options and \<open>cli_args\<close> the restriction
    of the format to the three choices.  The request of lines 26-66 is the value
    \<open>request\<close>, built from \<open>prompt\<close>, the data URI and \<open>response_format\<close> with the
    thirteen \<open>schema_properties\<close>.  The client, the inference service, \<^verbatim>\<open>json.loads\<close>,
    the three calls of the imaging library (\<open>image_open\<close>, \<open>image_crop\<close>, \<open>image_save\<close>,
    lines 81, 82, 84) and \<^verbatim>\<open>str(e)\<close> are the fields of the record \<open>world\<close>.
    \<open>process_image_try\<close> is the \<^verbatim>\<open>try\<close> body, \<open>process_image\<close> the whole function; it
    returns the pair of the source and, beside it, the crop files it wrote.
    \<open>path_join\<close> and \<open>splitext\<close> are \<^verbatim>\<open>posixpath\<close>'s.
  \<^item> \<open>Scheduler\<close>: the thread pool and the \<^verbatim>\<open>as_completed\<close> loop of \<^verbatim>\<open>main\<close> (lines 92,
    111-118) as the step function \<open>pool_step\<close> on the record \<open>pool\<close> over the events
    \<open>Submit\<close>, \<open>Start\<close>, \<open>Finish\<close>, \<open>Collect\<close>; executions are event lists
    (\<open>run_events\<close>), \<open>reachable\<close> is the inductive closure, \<open>collected\<close> the sequence
    of results that the loop of lines 116-118 receives along an execution.  \<open>Submit\<close>
    and \<open>Collect\<close> are the program's own steps; \<open>Start\<close>, \<open>Finish\<close> and the bound on
    the running tasks are the documented behaviour of \<^verbatim>\<open>ThreadPoolExecutor\<close> and
    \<^verbatim>\<open>as_completed\<close>, which the source only calls.  A worker's run is one atomic
    \<open>Finish\<close> step: workers share no state, so interleaving inside them cannot be
    observed.
  \<^item> \<open>Encoder\<close>: \<^verbatim>\<open>encode_image\<close> (lines 11-15) over the record \<open>files\<close> of the file
    system, with \<open>b64encode\<close> on 8-bit words and the reference decoder \<open>b64decode\<close>.
  \<^item> \<open>Exporter\<close>: the three output formats (lines 124-157): \<open>json_dump\<close>,
    \<open>export_txt\<close>, \<open>export_csv\<close> and the dispatch \<open>export\<close>, with \<^verbatim>\<open>str\<close> and \<^verbatim>\<open>repr\<close>
    of values (\<open>py_str\<close>, \<open>py_repr\<close>), the \<^verbatim>\<open>csv\<close> writer (\<open>csv_field\<close>, \<open>csv_record\<close>,
    \<open>dict_writerow\<close>) and the reference reader \<open>csv_read\<close>.
  \<^item> \<open>Json_Text\<close>: the reference reader of JSON text, \<open>json_loads_ref\<close>: the lexer
    \<open>lex\<close>, a machine over the characters, and the parser \<open>parse\<close>, a machine over the
    tokens with a stack of open containers.  The program never reads its result
    file; the reader is what the text written by \<open>json_dump\<close> is measured against.
  \<^item> \<open>Pipeline\<close>: \<^verbatim>\<open>main\<close> (lines 90-157): \<open>prepare\<close> (client, face directory,
    directory filter \<open>is_image\<close>, encode phase) and \<open>main\<close>, which takes the schedule
    of the pool as an argument and composes \<open>prepare\<close>, \<open>run_events\<close> and \<open>export\<close>.

  \<^bold>\<open>What the lemmas show.\<close>  For the normalizer: the dictionary loop equals its
  reference and never adds a key, so absent fields stay absent; the exact failure
  condition on dictionaries; a JSON array passes only unchanged; no field other than
  \<^verbatim>\<open>height\<close> is left with a sentinel; idempotence holds when the cleaned \<^verbatim>\<open>height\<close> is
  not itself a sentinel, and fails for every \<^verbatim>\<open>height\<close> that is cleaned to one.
  For the worker: it never raises and its result is the failure record of the first
  exception or the normalized reply; the crop region and destination; a crop that
  fails fails the item; where \<open>splitext\<close> splits a name; the face paths of two files
  can collide only when their extensions differ, and for equal stems they do.
  For the scheduler: at most \<^verbatim>\<open>max_workers\<close> tasks run; no state but the final ones is
  stuck; every execution ends within four steps per task; a complete execution
  exists; the multiset invariant \<open>pool_inv\<close> gives that a finished batch holds exactly
  the sequential results whatever the schedule, while \<^verbatim>\<open>output_data\<close> lists them in
  the order of collection; a failure injected into one item changes that item's
  entry only;
  the pool refines the abstract batch \<open>batch_step\<close>.
  For the encoder: decoding inverts encoding, the size and alphabet of the payload,
  and that equal payloads mean equal file contents.
  For the exporter: the CSV text reads back as the header and one row of thirteen
  cells per item; a failure record gives a row of empty cells; the text export stops
  with \<^verbatim>\<open>AttributeError\<close> at the first value that is not a dictionary and leaves a
  partial file; an unknown format writes nothing, which cannot happen for a
  namespace built by the command line; the JSON text, for results of any nesting
  without floats, decodes to \<^verbatim>\<open>output_data\<close> itself.
  For the whole run: the results do not depend on the schedule; a completed run with
  the format \<^verbatim>\<open>json\<close> leaves a file that decodes to one entry per listed image, the
  worker's result for the bytes of that file; zero workers and an unreadable image
  crash the run before any inference; a run can always complete; the directory
  filter.

  \<^bold>\<open>Bounds.\<close>  Strings are lists of code points below 256.  The list loop
  \<open>fill_list\<close> carries the number of iterations that remain; it starts at the
  length of the list, which item assignment never changes, and the loop also stops
  when the index reaches the current length, as Python's list iterator does.
  The measure \<open>measure_pool\<close> counts the steps a state still owes (4 for a task not
  submitted, 3 queued, 2 running, 1 completed and not collected), which is why
  \<open>4 * length tasks\<close> bounds every execution; no fuel is needed.  A pool with
  \<^verbatim>\<open>max_workers\<close> of zero or less is never built: \<open>main\<close> raises \<^verbatim>\<open>ValueError\<close> in its
  place, and progress of the pool is stated for a positive number.  Bytes are 8-bit
  words; every other number is an unbounded integer, as in Python.  The lexer and
  the parser of \<open>Json_Text\<close> recurse on their input and need no fuel; the reader
  knows integers only, so the round trip of the JSON text is stated for results
  without floats.
  The limit of recent CPython versions on the number of digits \<^verbatim>\<open>int\<close> and \<^verbatim>\<open>str\<close>
  convert is not modelled.

  \<^bold>\<open>Not modelled.\<close>  The inference service, \<^verbatim>\<open>json.loads\<close>, the imaging library and
  the file system are collaborators whose results are parameters of the model (the
  reply may depend on the file name and the data URI, not on time or on other
  items); so is the decimal representation of a finite float.  Of the command line
  (lines 160-171) the model has the namespace, its defaults and the choices of the
  format; the parsing of the argument strings is \<^verbatim>\<open>argparse\<close>'s.  The timing message
  (lines 109, 120-121), the encoding of the text written to the result file and
  failures of opening that file are left out.
\<close>

end
